theory Spec2Isabelle
  imports Main "HOL-Library.Sublist"
begin

section \<open>Python values\<close>

text \<open>
  A Python \<open>str\<close> is the list of its code points.  \<open>py\<close> turns an ASCII literal
  into such a list and \<open>ch\<close> gives the code point of one ASCII character.
\<close>

type_synonym pystr = "nat list"

definition ch :: "char \<Rightarrow> nat" where
  "ch c = of_char c"

definition py :: "string \<Rightarrow> pystr" where
  "py s = map ch s"

definition startswith :: "pystr \<Rightarrow> pystr \<Rightarrow> bool" where
  "startswith s p = prefix p s"

text \<open>
  Exceptions are values.  \<open>isinstance_Exception\<close> tells the classes that derive
  from \<open>Exception\<close>, which is what \<open>except Exception\<close> catches, from those that
  derive from \<open>BaseException\<close> only (since Python 3.8 \<open>asyncio.CancelledError\<close>
  is one of them).
\<close>

datatype exn =
    AttributeError
  | ValueError
  | UnicodeEncodeError
  | UnicodeDecodeError
  | SqliteError
  | OtherException string
  | CancelledError
  | KeyboardInterrupt
  | SystemExit int

fun isinstance_Exception :: "exn \<Rightarrow> bool" where
  "isinstance_Exception CancelledError = False"
| "isinstance_Exception KeyboardInterrupt = False"
| "isinstance_Exception (SystemExit c) = False"
| "isinstance_Exception e = True"

text \<open>
  A Python \<open>set\<close> of strings that the program iterates over is the list of its
  elements, without repetition; \<open>set_add\<close> is \<open>set.add\<close>.
\<close>

definition set_add :: "pystr \<Rightarrow> pystr list \<Rightarrow> pystr list" where
  "set_add x xs = (if x \<in> set xs then xs else xs @ [x])"


section \<open>WikiParser\<close>

text \<open>
  \<open>HTMLParser\<close> calls \<open>handle_starttag(tag, attrs)\<close> once for every start tag of
  the markup it is fed, with the attributes as (name, value) pairs; the value of
  an attribute written without one (\<open><a href>\<close>) is \<open>None\<close>.

  \<open>handle_starttag\<close> is the method of the source: the loop over \<open>attrs\<close> is
  \<open>scan_attrs\<close>.  Calling \<open>startswith\<close> on \<open>None\<close> raises \<open>AttributeError\<close>.  The
  result is the exception raised, if any, and \<open>self.links\<close> afterwards.
\<close>

type_synonym attr = "pystr \<times> pystr option"

fun scan_attrs :: "attr list \<Rightarrow> pystr list \<Rightarrow> exn option \<times> pystr list" where
  "scan_attrs [] links = (None, links)"
| "scan_attrs ((k, v) # attrs) links =
     (if k = py ''href'' then
        (case v of
           None \<Rightarrow> (Some AttributeError, links)
         | Some h \<Rightarrow>
             if startswith h (py ''/wiki'') \<and> ch CHR '':'' \<notin> set h
             then scan_attrs attrs (set_add h links)
             else scan_attrs attrs links)
      else scan_attrs attrs links)"

definition handle_starttag :: "pystr \<Rightarrow> attr list \<Rightarrow> pystr list \<Rightarrow> exn option \<times> pystr list" where
  "handle_starttag tag attrs links =
     (if tag = py ''a'' then scan_attrs attrs links else (None, links))"

text \<open>
  \<open>feed\<close> on a stream of start tags: the handler runs on each in turn, and the
  first exception ends the feed.
\<close>

fun feed :: "(pystr \<times> attr list) list \<Rightarrow> pystr list \<Rightarrow> exn option \<times> pystr list" where
  "feed [] links = (None, links)"
| "feed ((tag, attrs) # rest) links =
     (case handle_starttag tag attrs links of
        (Some e, links') \<Rightarrow> (Some e, links')
      | (None, links') \<Rightarrow> feed rest links')"

text \<open>A reference that the recognition rule of \<open>handle_starttag\<close> lets through.\<close>

definition article_link :: "pystr \<Rightarrow> bool" where
  "article_link h \<longleftrightarrow> startswith h (py ''/wiki'') \<and> ch CHR '':'' \<notin> set h"


section \<open>The standard library: \<open>urllib.parse\<close>\<close>

text \<open>
  The functions of \<open>urllib.parse\<close> that the program calls, after their source in
  CPython 3.11, on \<open>str\<close> arguments.  First the \<open>str\<close> methods they use:
  \<open>before c s\<close> and \<open>after c s\<close> are the two parts of \<open>s.split(c, 1)\<close> when \<open>c\<close>
  occurs in \<open>s\<close>, that is \<open>s[:i]\<close> and \<open>s[i+1:]\<close> for \<open>i = s.find(c)\<close>.
\<close>

definition before :: "nat \<Rightarrow> pystr \<Rightarrow> pystr" where
  "before c s = takeWhile (\<lambda>x. x \<noteq> c) s"

definition after :: "nat \<Rightarrow> pystr \<Rightarrow> pystr" where
  "after c s = drop 1 (dropWhile (\<lambda>x. x \<noteq> c) s)"

fun split_on :: "nat \<Rightarrow> pystr \<Rightarrow> pystr list" where
  "split_on c [] = [[]]"
| "split_on c (x # xs) =
     (if x = c then [] # split_on c xs
      else (case split_on c xs of
              [] \<Rightarrow> [[x]]
            | seg # segs \<Rightarrow> (x # seg) # segs))"

fun join_with :: "pystr \<Rightarrow> pystr list \<Rightarrow> pystr" where
  "join_with sep [] = []"
| "join_with sep [seg] = seg"
| "join_with sep (seg # segs) = seg @ sep @ join_with sep segs"

definition ascii_alpha :: "nat \<Rightarrow> bool" where
  "ascii_alpha c \<longleftrightarrow> (65 \<le> c \<and> c \<le> 90) \<or> (97 \<le> c \<and> c \<le> 122)"

definition ascii_digit :: "nat \<Rightarrow> bool" where
  "ascii_digit c \<longleftrightarrow> 48 \<le> c \<and> c \<le> 57"

definition ascii_lower :: "pystr \<Rightarrow> pystr" where
  "ascii_lower s = map (\<lambda>c. if 65 \<le> c \<and> c \<le> 90 then c + 32 else c) s"

definition uses_relative :: "pystr list" where
  "uses_relative = map py [[], ''ftp'', ''http'', ''gopher'', ''nntp'', ''imap'',
     ''wais'', ''file'', ''https'', ''shttp'', ''mms'', ''prospero'', ''rtsp'', ''rtsps'',
     ''rtspu'', ''sftp'', ''svn'', ''svn+ssh'', ''ws'', ''wss'']"

definition uses_netloc :: "pystr list" where
  "uses_netloc = map py [[], ''ftp'', ''http'', ''gopher'', ''nntp'', ''telnet'',
     ''imap'', ''wais'', ''file'', ''mms'', ''https'', ''shttp'', ''snews'', ''prospero'',
     ''rtsp'', ''rtsps'', ''rtspu'', ''rsync'', ''svn'', ''svn+ssh'', ''sftp'', ''nfs'',
     ''git'', ''git+ssh'', ''ws'', ''wss'']"

definition uses_params :: "pystr list" where
  "uses_params = map py [[], ''ftp'', ''hdl'', ''prospero'', ''http'', ''imap'',
     ''https'', ''shttp'', ''rtsp'', ''rtsps'', ''rtspu'', ''sip'', ''sips'', ''mms'',
     ''sftp'', ''tel'']"

definition scheme_chars :: "nat \<Rightarrow> bool" where
  "scheme_chars c \<longleftrightarrow> ascii_alpha c \<or> ascii_digit c \<or> c \<in> set (py ''+-.'')"

text \<open>
  \<open>urlsplit\<close>.  The leading C0 control characters and spaces are stripped, tabs and
  line breaks removed, then the scheme, the network location, the fragment and
  the query are cut off in this order.  A network location with one bracket
  only raises \<open>ValueError\<close>.  The two further validations of the network location
  (\<open>_check_bracketed_host\<close> when both brackets occur, and the NFKC test of
  \<open>_checknetloc\<close> when a character is not ASCII) rest on \<open>ipaddress\<close> and
  \<open>unicodedata\<close>; they are the parameter \<open>ok\<close>, consulted exactly where they apply.
\<close>

definition c0_control_or_space :: "nat \<Rightarrow> bool" where
  "c0_control_or_space c \<longleftrightarrow> c \<le> 32"

definition lstrip_c0 :: "pystr \<Rightarrow> pystr" where
  "lstrip_c0 s = dropWhile c0_control_or_space s"

definition strip_c0 :: "pystr \<Rightarrow> pystr" where
  "strip_c0 s = rev (dropWhile c0_control_or_space (rev (dropWhile c0_control_or_space s)))"

definition remove_unsafe :: "pystr \<Rightarrow> pystr" where
  "remove_unsafe s = filter (\<lambda>c. c \<noteq> 9 \<and> c \<noteq> 13 \<and> c \<noteq> 10) s"

definition netloc_delim :: "nat \<Rightarrow> bool" where
  "netloc_delim c \<longleftrightarrow> c = ch CHR ''/'' \<or> c = ch CHR ''?'' \<or> c = ch CHR ''#''"

definition splitnetloc :: "pystr \<Rightarrow> pystr \<times> pystr" where
  "splitnetloc url =
     (takeWhile (\<lambda>c. \<not> netloc_delim c) (drop 2 url),
      dropWhile (\<lambda>c. \<not> netloc_delim c) (drop 2 url))"

definition netloc_raises :: "(pystr \<Rightarrow> bool) \<Rightarrow> pystr \<Rightarrow> bool" where
  "netloc_raises ok loc \<longleftrightarrow>
     (ch CHR ''['' \<in> set loc) \<noteq> (ch CHR '']'' \<in> set loc) \<or>
     (((ch CHR ''['' \<in> set loc \<and> ch CHR '']'' \<in> set loc) \<or> list_ex (\<lambda>c. 128 \<le> c) loc)
        \<and> \<not> ok loc)"

definition urlsplit ::
  "(pystr \<Rightarrow> bool) \<Rightarrow> pystr \<Rightarrow> pystr \<Rightarrow> exn + (pystr \<times> pystr \<times> pystr \<times> pystr \<times> pystr)" where
  "urlsplit ok url0 scheme0 =
     (let url1 = remove_unsafe (lstrip_c0 url0);
          scheme1 = remove_unsafe (strip_c0 scheme0);
          found = (ch CHR '':'' \<in> set url1 \<and> before (ch CHR '':'') url1 \<noteq> [] \<and>
                   ascii_alpha (hd url1) \<and> list_all scheme_chars (before (ch CHR '':'') url1));
          sch = (if found then ascii_lower (before (ch CHR '':'') url1) else scheme1);
          url2 = (if found then after (ch CHR '':'') url1 else url1);
          slashes = (take 2 url2 = py ''//'');
          loc = (if slashes then fst (splitnetloc url2) else []);
          url3 = (if slashes then snd (splitnetloc url2) else url2);
          hashed = (ch CHR ''#'' \<in> set url3);
          frag = (if hashed then after (ch CHR ''#'') url3 else []);
          url4 = (if hashed then before (ch CHR ''#'') url3 else url3);
          asked = (ch CHR ''?'' \<in> set url4);
          qry = (if asked then after (ch CHR ''?'') url4 else []);
          url5 = (if asked then before (ch CHR ''?'') url4 else url4)
      in if netloc_raises ok loc then Inl ValueError
         else Inr (sch, loc, url5, qry, frag))"

text \<open>\<open>urlparse\<close> and its result, whose fields \<open>main\<close> reads.\<close>

record parse_result =
  scheme :: pystr
  netloc :: pystr
  path :: pystr
  params :: pystr
  query :: pystr
  fragment :: pystr

definition splitparams :: "pystr \<Rightarrow> pystr \<times> pystr" where
  "splitparams url =
     (if ch CHR ''/'' \<in> set url then
        (let last_seg = rev (takeWhile (\<lambda>c. c \<noteq> ch CHR ''/'') (rev url));
             upto = rev (dropWhile (\<lambda>c. c \<noteq> ch CHR ''/'') (rev url))
         in if ch CHR '';'' \<in> set last_seg
            then (upto @ before (ch CHR '';'') last_seg, after (ch CHR '';'') last_seg)
            else (url, []))
      else (before (ch CHR '';'') url, after (ch CHR '';'') url))"

definition urlparse :: "(pystr \<Rightarrow> bool) \<Rightarrow> pystr \<Rightarrow> pystr \<Rightarrow> exn + parse_result" where
  "urlparse ok url0 scheme0 =
     (case urlsplit ok url0 scheme0 of
        Inl e \<Rightarrow> Inl e
      | Inr (sch, loc, url, qry, frag) \<Rightarrow>
          (let split = (sch \<in> set uses_params \<and> ch CHR '';'' \<in> set url)
           in Inr \<lparr>scheme = sch, netloc = loc,
                   path = (if split then fst (splitparams url) else url),
                   params = (if split then snd (splitparams url) else []),
                   query = qry, fragment = frag\<rparr>))"

definition urlunsplit :: "pystr \<Rightarrow> pystr \<Rightarrow> pystr \<Rightarrow> pystr \<Rightarrow> pystr \<Rightarrow> pystr" where
  "urlunsplit sch loc url0 qry frag =
     (let url1 = (if loc \<noteq> [] \<or> (sch \<noteq> [] \<and> sch \<in> set uses_netloc) \<or> take 2 url0 = py ''//''
                  then py ''//'' @ loc @
                         (if url0 \<noteq> [] \<and> take 1 url0 \<noteq> py ''/'' then py ''/'' @ url0 else url0)
                  else url0);
          url2 = (if sch \<noteq> [] then sch @ py '':'' @ url1 else url1);
          url3 = (if qry \<noteq> [] then url2 @ py ''?'' @ qry else url2)
      in if frag \<noteq> [] then url3 @ py ''#'' @ frag else url3)"

definition urlunparse :: "parse_result \<Rightarrow> pystr" where
  "urlunparse p =
     urlunsplit (scheme p) (netloc p)
       (if params p \<noteq> [] then path p @ py '';'' @ params p else path p)
       (query p) (fragment p)"

text \<open>
  \<open>urljoin\<close>.  \<open>resolve_segments\<close> is its loop over the path segments
  (\<open>resolved_path\<close> is the accumulator; popping from an empty list is ignored) and
  \<open>filter_middle\<close> the slice assignment \<open>segments[1:-1] = filter(None, segments[1:-1])\<close>.
\<close>

fun resolve_segments :: "pystr list \<Rightarrow> pystr list \<Rightarrow> pystr list" where
  "resolve_segments [] resolved_path = resolved_path"
| "resolve_segments (seg # segments) resolved_path =
     (if seg = py ''..'' then resolve_segments segments (butlast resolved_path)
      else if seg = py ''.'' then resolve_segments segments resolved_path
      else resolve_segments segments (resolved_path @ [seg]))"

fun filter_middle :: "pystr list \<Rightarrow> pystr list" where
  "filter_middle [] = []"
| "filter_middle [seg] = [seg]"
| "filter_middle (seg # segs) = seg # filter (\<lambda>x. x \<noteq> []) (butlast segs) @ [last segs]"

definition join_path :: "pystr \<Rightarrow> pystr \<Rightarrow> pystr" where
  "join_path bpath upath =
     (let base_parts0 = split_on (ch CHR ''/'') bpath;
          base_parts = (if last base_parts0 \<noteq> [] then butlast base_parts0 else base_parts0);
          segments = (if take 1 upath = py ''/'' then split_on (ch CHR ''/'') upath
                      else filter_middle (base_parts @ split_on (ch CHR ''/'') upath));
          resolved0 = resolve_segments segments [];
          resolved_path = (if last segments = py ''.'' \<or> last segments = py ''..''
                           then resolved0 @ [[]] else resolved0);
          joined = join_with (py ''/'') resolved_path
      in if joined = [] then py ''/'' else joined)"

definition urljoin :: "(pystr \<Rightarrow> bool) \<Rightarrow> pystr \<Rightarrow> pystr \<Rightarrow> exn + pystr" where
  "urljoin ok base url =
     (if base = [] then Inr url
      else if url = [] then Inr base
      else case urlparse ok base [] of
        Inl e \<Rightarrow> Inl e
      | Inr b \<Rightarrow>
         (case urlparse ok url (scheme b) of
            Inl e \<Rightarrow> Inl e
          | Inr u \<Rightarrow>
              if scheme u \<noteq> scheme b \<or> scheme u \<notin> set uses_relative then Inr url
              else if scheme u \<in> set uses_netloc \<and> netloc u \<noteq> [] then Inr (urlunparse u)
              else
                (let loc = (if scheme u \<in> set uses_netloc then netloc b else netloc u)
                 in if path u = [] \<and> params u = []
                    then Inr (urlunparse (u\<lparr>netloc := loc, path := path b, params := params b,
                                 query := (if query u = [] then query b else query u)\<rparr>))
                    else Inr (urlunparse (u\<lparr>netloc := loc,
                                 path := join_path (path b) (path u)\<rparr>)))))"

text \<open>
  \<open>unquote\<close>.  \<open>unquote_to_bytes\<close> replaces every \<open>%XX\<close> with two hexadecimal
  digits by the byte they denote and leaves any other \<open>%\<close> in place.  \<open>unquote\<close>
  applies it to each maximal run of ASCII characters and decodes the bytes as
  UTF-8 with \<open>errors='replace'\<close>, leaving the other characters as they are.  In
  that decoding an ASCII byte always stands for itself; what a maximal run of
  bytes from 128 on decodes to (code points, or replacement characters) is the
  parameter \<open>dec\<close>.
\<close>

definition hexdig :: "nat \<Rightarrow> bool" where
  "hexdig c \<longleftrightarrow> ascii_digit c \<or> (65 \<le> c \<and> c \<le> 70) \<or> (97 \<le> c \<and> c \<le> 102)"

definition hexval :: "nat \<Rightarrow> nat" where
  "hexval c = (if ascii_digit c then c - 48 else if c \<le> 70 then c - 55 else c - 87)"

fun unquote_to_bytes :: "pystr \<Rightarrow> nat list" where
  "unquote_to_bytes (c # a # b # rest) =
     (if c = ch CHR ''%'' \<and> hexdig a \<and> hexdig b
      then (16 * hexval a + hexval b) # unquote_to_bytes rest
      else c # unquote_to_bytes (a # b # rest))"
| "unquote_to_bytes (c # rest) = c # unquote_to_bytes rest"
| "unquote_to_bytes [] = []"

definition decode_run :: "(nat list \<Rightarrow> pystr) \<Rightarrow> nat list \<Rightarrow> pystr" where
  "decode_run dec run = (if run = [] then [] else dec run)"

fun decode_utf8_replace :: "(nat list \<Rightarrow> pystr) \<Rightarrow> nat list \<Rightarrow> nat list \<Rightarrow> pystr" where
  "decode_utf8_replace dec run [] = decode_run dec run"
| "decode_utf8_replace dec run (b # bs) =
     (if b < 128 then decode_run dec run @ b # decode_utf8_replace dec [] bs
      else decode_utf8_replace dec (run @ [b]) bs)"

definition unquote_ascii :: "(nat list \<Rightarrow> pystr) \<Rightarrow> pystr \<Rightarrow> pystr" where
  "unquote_ascii dec run =
     (if run = [] then [] else decode_utf8_replace dec [] (unquote_to_bytes run))"

fun unquote_parts :: "(nat list \<Rightarrow> pystr) \<Rightarrow> pystr \<Rightarrow> pystr \<Rightarrow> pystr" where
  "unquote_parts dec run [] = unquote_ascii dec run"
| "unquote_parts dec run (c # cs) =
     (if c < 128 then unquote_parts dec (run @ [c]) cs
      else unquote_ascii dec run @ c # unquote_parts dec [] cs)"

definition unquote :: "(nat list \<Rightarrow> pystr) \<Rightarrow> pystr \<Rightarrow> pystr" where
  "unquote dec s = (if ch CHR ''%'' \<notin> set s then s else unquote_parts dec [] s)"

text \<open>
  \<open>quote\<close>: the string is encoded as UTF-8 (\<open>errors='strict'\<close>: a surrogate raises
  \<open>UnicodeEncodeError\<close>) and every byte that is neither always safe nor in
  \<open>safe\<close> becomes \<open>%XX\<close>.
\<close>

definition utf8_encode_char :: "nat \<Rightarrow> exn + nat list" where
  "utf8_encode_char c =
     (if c < 128 then Inr [c]
      else if c < 2048 then Inr [192 + c div 64, 128 + c mod 64]
      else if 55296 \<le> c \<and> c \<le> 57343 then Inl UnicodeEncodeError
      else if c < 65536 then Inr [224 + c div 4096, 128 + (c div 64) mod 64, 128 + c mod 64]
      else Inr [240 + c div 262144, 128 + (c div 4096) mod 64,
                128 + (c div 64) mod 64, 128 + c mod 64])"

fun utf8_encode :: "pystr \<Rightarrow> exn + nat list" where
  "utf8_encode [] = Inr []"
| "utf8_encode (c # cs) =
     (case utf8_encode_char c of
        Inl e \<Rightarrow> Inl e
      | Inr bs \<Rightarrow> (case utf8_encode cs of Inl e \<Rightarrow> Inl e | Inr rest \<Rightarrow> Inr (bs @ rest)))"

definition always_safe :: "nat \<Rightarrow> bool" where
  "always_safe b \<longleftrightarrow> ascii_alpha b \<or> ascii_digit b \<or> b \<in> set (py ''_.-~'')"

definition hex_upper :: "nat \<Rightarrow> nat" where
  "hex_upper n = (if n < 10 then 48 + n else 55 + n)"

definition quote_byte :: "pystr \<Rightarrow> nat \<Rightarrow> pystr" where
  "quote_byte safe b =
     (if always_safe b \<or> (b < 128 \<and> b \<in> set safe) then [b]
      else [ch CHR ''%'', hex_upper (b div 16), hex_upper (b mod 16)])"

definition quote :: "pystr \<Rightarrow> pystr \<Rightarrow> exn + pystr" where
  "quote s safe =
     (if s = [] then Inr s
      else case utf8_encode s of
        Inl e \<Rightarrow> Inl e
      | Inr bs \<Rightarrow> Inr (concat (map (quote_byte safe) bs)))"


section \<open>The environment and the state of a run\<close>

text \<open>
  What the program does not decide is the environment \<open>env\<close>: the network
  (\<open>urlopen\<close>, asked with the world \<open>'w\<close> as it stands, which it may change),
  whether a \<open>sqlite3\<close> call fails, and the library functions that are taken as
  given: the tokenizer of \<open>HTMLParser\<close> (\<open>starttags\<close>: the start tags of a page, in
  order), the validation of a network location (\<open>netloc_ok\<close>) and the UTF-8
  decoding of bytes from 128 on (\<open>utf8_dec\<close>).

  A \<open>response\<close> is what \<open>urlopen(url)\<close> followed by \<open>read().decode("utf-8")\<close>, after
  the pause \<open>asyncio.sleep(0.3)\<close>, comes to: the text of the page, an
  \<open>HTTPError\<close> with its status, a \<open>URLError\<close>, or any other exception
  (\<open>UnicodeDecodeError\<close>, a timeout while reading, the \<open>CancelledError\<close> of a
  cancelled task, ...).
\<close>

datatype response =
    Body pystr
  | HTTPError nat
  | URLError
  | Raises exn

record 'w env =
  urlopen :: "pystr \<Rightarrow> 'w \<Rightarrow> response \<times> 'w"
  sqlite_fails :: "'w \<Rightarrow> bool \<times> 'w"
  starttags :: "pystr \<Rightarrow> (pystr \<times> attr list) list"
  netloc_ok :: "pystr \<Rightarrow> bool"
  utf8_dec :: "nat list \<Rightarrow> pystr"

text \<open>
  The state: the world, the database file (\<open>None\<close> when it has no table \<open>Urls\<close>,
  otherwise the values of the column \<open>url\<close> in the order of their \<open>id\<close>), the set
  \<open>visited\<close> that all frames of a traversal share, and the \<open>trace\<close> of what has
  happened, which the program does not read.
\<close>

datatype event =
    Call pystr int
  | Explored pystr int
  | Fetched pystr
  | Printed_http_error nat pystr
  | Printed_url_error pystr
  | Saved "pystr list"
  | Dropped
  | Caught pystr int exn
  | Print_failed pystr int exn
  | Printed_usage
  | Printed_invalid
  | Shutdown

record 'w state =
  world :: 'w
  db :: "pystr list option"
  visited :: "pystr set"
  trace :: "event list"

definition emit :: "event list \<Rightarrow> 'w state \<Rightarrow> 'w state" where
  "emit evs s = s\<lparr>trace := trace s @ evs\<rparr>"

definition stored :: "'w state \<Rightarrow> pystr set" where
  "stored s = (case db s of None \<Rightarrow> {} | Some rows \<Rightarrow> set rows)"


section \<open>The program\<close>

text \<open>
  \<open>get_page\<close>: the URL is quoted, then opened.  An \<open>HTTPError\<close> and a \<open>URLError\<close>
  are printed and give the empty string; anything else that is raised leaves
  the function.
\<close>

definition get_page :: "'w env \<Rightarrow> pystr \<Rightarrow> 'w state \<Rightarrow> (exn + pystr) \<times> 'w state" where
  "get_page env url0 s =
     (case quote url0 (py '':/?&='') of
        Inl e \<Rightarrow> (Inl e, s)
      | Inr url \<Rightarrow>
          (case urlopen env url (world s) of
             (Body text, w) \<Rightarrow> (Inr text, emit [Fetched url] (s\<lparr>world := w\<rparr>))
           | (HTTPError code, w) \<Rightarrow>
               (Inr [], emit [Fetched url, Printed_http_error code url] (s\<lparr>world := w\<rparr>))
           | (URLError, w) \<Rightarrow>
               (Inr [], emit [Fetched url, Printed_url_error url] (s\<lparr>world := w\<rparr>))
           | (Raises e, w) \<Rightarrow> (Inl e, emit [Fetched url] (s\<lparr>world := w\<rparr>))))"

text \<open>
  What can be encoded as UTF-8: a string with no surrogate.  The standard output
  is taken to be UTF-8 with \<open>errors='strict'\<close>, so that \<open>print\<close> raises
  \<open>UnicodeEncodeError\<close> exactly when one of the strings that the message is made
  of cannot be encoded; the words of the program, the numbers and the texts of
  the exceptions can.
\<close>

definition encodable :: "pystr \<Rightarrow> bool" where
  "encodable text = (case utf8_encode text of Inl e \<Rightarrow> False | Inr bs \<Rightarrow> True)"

definition print_raises :: "pystr list \<Rightarrow> bool" where
  "print_raises texts = list_ex (\<lambda>text. \<not> encodable text) texts"

text \<open>
  \<open>save_to_db\<close>: \<open>CREATE TABLE IF NOT EXISTS\<close>, which takes effect at once, then
  one \<open>INSERT OR IGNORE\<close> for each URL (the column is \<open>UNIQUE\<close>: a value already
  there is ignored), then the commit.  \<open>execute_inserts\<close> is the loop: binding a
  URL that cannot be encoded as UTF-8 raises \<open>UnicodeEncodeError\<close>, and leaving the
  \<open>with\<close> block by an exception rolls the insertions back, so that the table is
  then as it was created.  \<open>insert_all\<close> gives the rows after the insertions when
  none of them raises.  Any other failure of \<open>sqlite3\<close> is taken at the
  connection: it raises and leaves the file as it was.  The run has one
  database file, which \<open>db_name\<close> names.
\<close>

definition create_table_if_not_exists :: "pystr list option \<Rightarrow> pystr list" where
  "create_table_if_not_exists d = (case d of None \<Rightarrow> [] | Some rows \<Rightarrow> rows)"

definition insert_or_ignore :: "pystr list \<Rightarrow> pystr \<Rightarrow> pystr list" where
  "insert_or_ignore rows url = (if url \<in> set rows then rows else rows @ [url])"

fun insert_all :: "pystr list \<Rightarrow> pystr list \<Rightarrow> pystr list" where
  "insert_all rows [] = rows"
| "insert_all rows (url # urls) = insert_all (insert_or_ignore rows url) urls"

fun execute_inserts :: "pystr list \<Rightarrow> pystr list \<Rightarrow> exn + pystr list" where
  "execute_inserts rows [] = Inr rows"
| "execute_inserts rows (url # urls) =
     (if encodable url then execute_inserts (insert_or_ignore rows url) urls
      else Inl UnicodeEncodeError)"

definition save_to_db :: "'w env \<Rightarrow> pystr \<Rightarrow> pystr list \<Rightarrow> 'w state \<Rightarrow> exn option \<times> 'w state" where
  "save_to_db env db_name urls s =
     (case sqlite_fails env (world s) of
        (True, w) \<Rightarrow> (Some SqliteError, s\<lparr>world := w\<rparr>)
      | (False, w) \<Rightarrow>
          (case execute_inserts (create_table_if_not_exists (db s)) urls of
             Inl e \<Rightarrow>
               (Some e, s\<lparr>world := w, db := Some (create_table_if_not_exists (db s))\<rparr>)
           | Inr rows \<Rightarrow>
               (None, emit [Saved urls] (s\<lparr>world := w, db := Some rows\<rparr>))))"

text \<open>
  \<open>get_links_from_page\<close>.  \<open>resolve_link\<close> is the resolver, the expression
  \<open>urljoin(base_url, unquote(link))\<close>, and \<open>resolve_links\<close> the set comprehension
  around it: the links of the parser are resolved one after the other, and a
  \<open>ValueError\<close> of \<open>urljoin\<close> ends it.
\<close>

definition resolve_link ::
  "(pystr \<Rightarrow> bool) \<Rightarrow> (nat list \<Rightarrow> pystr) \<Rightarrow> pystr \<Rightarrow> pystr \<Rightarrow> exn + pystr" where
  "resolve_link ok dec base_url link = urljoin ok base_url (unquote dec link)"

fun resolve_links :: "'w env \<Rightarrow> pystr \<Rightarrow> pystr list \<Rightarrow> pystr list \<Rightarrow> exn + pystr list" where
  "resolve_links env base_url [] acc = Inr acc"
| "resolve_links env base_url (link # links) acc =
     (case resolve_link (netloc_ok env) (utf8_dec env) base_url link of
        Inl e \<Rightarrow> Inl e
      | Inr u \<Rightarrow> resolve_links env base_url links (set_add u acc))"

definition get_links_from_page ::
  "'w env \<Rightarrow> pystr \<Rightarrow> pystr \<Rightarrow> 'w state \<Rightarrow> (exn + pystr list) \<times> 'w state" where
  "get_links_from_page env url base_url s =
     (case get_page env url s of
        (Inl e, s1) \<Rightarrow> (Inl e, s1)
      | (Inr html, s1) \<Rightarrow>
          if html = [] then (Inr [], s1)
          else (case feed (starttags env html) [] of
                  (Some e, links) \<Rightarrow> (Inl e, s1)
                | (None, links) \<Rightarrow> (resolve_links env base_url links [], s1)))"

text \<open>
  \<open>recursive_url_scrap\<close>.  A call gives \<open>Some (None, s)\<close> when it returns,
  \<open>Some (Some e, s)\<close> when it raises \<open>e\<close>, and \<open>None\<close> when the recursion is deeper
  than \<open>fuel\<close> frames.  \<open>for_each\<close> is the loop \<open>for link in links\<close> around the
  recursive call, \<open>try_block\<close> the body of the \<open>try\<close>, and \<open>except_Exception\<close>
  the handler: it prints a message that names \<open>current_url\<close>, and a \<open>print\<close> that
  raises leaves the frame with its exception.
\<close>

type_synonym 'w outcome = "(exn option \<times> 'w state) option"

fun for_each :: "(pystr \<Rightarrow> 'w state \<Rightarrow> 'w outcome) \<Rightarrow> pystr list \<Rightarrow> 'w state \<Rightarrow> 'w outcome" where
  "for_each call [] s = Some (None, s)"
| "for_each call (link # links) s =
     (case call link s of
        None \<Rightarrow> None
      | Some (Some e, s') \<Rightarrow> Some (Some e, s')
      | Some (None, s') \<Rightarrow> for_each call links s')"

definition try_block ::
  "(pystr \<Rightarrow> 'w state \<Rightarrow> 'w outcome) \<Rightarrow> 'w env \<Rightarrow> pystr \<Rightarrow> pystr \<Rightarrow> pystr \<Rightarrow> 'w state \<Rightarrow> 'w outcome" where
  "try_block call env base_url current_url db_name s =
     (case get_links_from_page env current_url base_url s of
        (Inl e, s1) \<Rightarrow> Some (Some e, s1)
      | (Inr links, s1) \<Rightarrow>
          (case save_to_db env db_name links s1 of
             (Some e, s2) \<Rightarrow> Some (Some e, s2)
           | (None, s2) \<Rightarrow> for_each call links s2))"

definition except_Exception :: "pystr \<Rightarrow> int \<Rightarrow> 'w outcome \<Rightarrow> 'w outcome" where
  "except_Exception current_url depth r =
     (case r of
        None \<Rightarrow> None
      | Some (None, s) \<Rightarrow> Some (None, s)
      | Some (Some e, s) \<Rightarrow>
          if isinstance_Exception e then
            (if print_raises [current_url]
             then Some (Some UnicodeEncodeError, emit [Print_failed current_url depth e] s)
             else Some (None, emit [Caught current_url depth e] s))
          else Some (Some e, s))"

primrec recursive_url_scrap ::
  "nat \<Rightarrow> 'w env \<Rightarrow> pystr \<Rightarrow> pystr \<Rightarrow> pystr \<Rightarrow> int \<Rightarrow> 'w state \<Rightarrow> 'w outcome" where
  "recursive_url_scrap 0 env base_url current_url db_name depth s = None"
| "recursive_url_scrap (Suc fuel) env base_url current_url db_name depth s =
     (if depth = 0 \<or> current_url \<in> visited s then Some (None, emit [Call current_url depth] s)
      else except_Exception current_url depth
             (try_block (\<lambda>link. recursive_url_scrap fuel env base_url link db_name (depth - 1))
                env base_url current_url db_name
                (emit [Call current_url depth, Explored current_url depth]
                   (s\<lparr>visited := insert current_url (visited s)\<rparr>))))"

text \<open>
  \<open>main\<close>.  \<open>re_match_seed\<close> is \<open>re.match\<close> with the pattern of the source,
  \<^verbatim>\<open>^https?://[^\s/$.?#].[^\s]*$\<close>: \<open>\s\<close> is the Unicode white space, the dot any
  character but the line feed, and \<open>$\<close> the end of the string or the place before
  a line feed that ends it.  \<open>sys.exit(1)\<close> raises \<open>SystemExit\<close>; the \<open>finally\<close> runs
  \<open>shutdown\<close> whatever happened.  \<open>exit_status\<close> is the status of the process for
  what \<open>main\<close> came to.
\<close>

definition unicode_space :: "nat \<Rightarrow> bool" where
  "unicode_space c \<longleftrightarrow>
     (9 \<le> c \<and> c \<le> 13) \<or> (28 \<le> c \<and> c \<le> 32) \<or> c = 133 \<or> c = 160 \<or> c = 5760 \<or>
     (8192 \<le> c \<and> c \<le> 8202) \<or> c = 8232 \<or> c = 8233 \<or> c = 8239 \<or> c = 8287 \<or> c = 12288"

definition at_end :: "pystr \<Rightarrow> bool" where
  "at_end s \<longleftrightarrow> s = [] \<or> s = [10]"

fun re_match_host :: "pystr \<Rightarrow> bool" where
  "re_match_host (c1 # c2 # rest) =
     (\<not> unicode_space c1 \<and> c1 \<notin> set (py ''/$.?#'') \<and> c2 \<noteq> 10 \<and>
      at_end (dropWhile (\<lambda>c. \<not> unicode_space c) rest))"
| "re_match_host s = False"

definition re_match_seed :: "pystr \<Rightarrow> bool" where
  "re_match_seed url =
     (if startswith url (py ''https://'') then re_match_host (drop 8 url)
      else if startswith url (py ''http://'') then re_match_host (drop 7 url)
      else False)"

definition drop_table :: "'w env \<Rightarrow> 'w state \<Rightarrow> exn option \<times> 'w state" where
  "drop_table env s =
     (case sqlite_fails env (world s) of
        (True, w) \<Rightarrow> (Some SqliteError, s\<lparr>world := w\<rparr>)
      | (False, w) \<Rightarrow> (None, emit [Dropped] (s\<lparr>world := w, db := None\<rparr>)))"

definition main_try :: "nat \<Rightarrow> 'w env \<Rightarrow> pystr list \<Rightarrow> 'w state \<Rightarrow> 'w outcome" where
  "main_try fuel env argv s =
     (if length argv < 2 then
        (if argv = [] then Some (Some (OtherException ''IndexError''), s)
         else Some (Some (SystemExit 1), emit [Printed_usage] s))
      else
        (let current_url = argv ! 1 in
         if \<not> re_match_seed current_url then Some (Some (SystemExit 1), emit [Printed_invalid] s)
         else
           (case urlparse (netloc_ok env) current_url [] of
              Inl e \<Rightarrow> Some (Some e, s)
            | Inr parse_url \<Rightarrow>
                (let base_url = scheme parse_url @ py ''://'' @ netloc parse_url;
                     db_name = py ''url_storage.db'';
                     depth = 6
                 in case drop_table env s of
                      (Some e, s1) \<Rightarrow> Some (Some e, s1)
                    | (None, s1) \<Rightarrow>
                        recursive_url_scrap fuel env base_url current_url db_name depth
                          (s1\<lparr>visited := {}\<rparr>)))))"

definition main :: "nat \<Rightarrow> 'w env \<Rightarrow> pystr list \<Rightarrow> 'w state \<Rightarrow> 'w outcome" where
  "main fuel env argv s =
     (case main_try fuel env argv s of
        None \<Rightarrow> None
      | Some (r, s') \<Rightarrow> Some (r, emit [Shutdown] s'))"

fun exit_status :: "exn option \<Rightarrow> int" where
  "exit_status None = 0"
| "exit_status (Some (SystemExit c)) = c"
| "exit_status (Some KeyboardInterrupt) = 130"
| "exit_status (Some e) = 1"


section \<open>Reading a trace\<close>

text \<open>
  The URLs of the frames that went past the guard, in order, and the depths of
  all calls.
\<close>

fun explored :: "event list \<Rightarrow> pystr list" where
  "explored [] = []"
| "explored (Explored u d # evs) = u # explored evs"
| "explored (ev # evs) = explored evs"

fun call_depths :: "event list \<Rightarrow> int list" where
  "call_depths [] = []"
| "call_depths (Call u d # evs) = d # call_depths evs"
| "call_depths (ev # evs) = call_depths evs"

text \<open>
  Environments to run the program in: \<open>offline\<close> answers every request with a
  \<open>URLError\<close>, \<open>garbled\<close> with bytes that are not UTF-8, \<open>cancelled\<close> stands for a
  task cancelled during the pause before the request, and \<open>one_page\<close> serves the
  same page with two article links whatever is asked.  None of them has a
  failing database.
\<close>

definition offline :: "unit env" where
  "offline = \<lparr>urlopen = (\<lambda>url w. (URLError, w)), sqlite_fails = (\<lambda>w. (False, w)),
     starttags = (\<lambda>html. []), netloc_ok = (\<lambda>loc. True), utf8_dec = (\<lambda>bs. [65533])\<rparr>"

definition garbled :: "unit env" where
  "garbled = offline\<lparr>urlopen := (\<lambda>url w. (Raises UnicodeDecodeError, w))\<rparr>"

definition cancelled :: "unit env" where
  "cancelled = offline\<lparr>urlopen := (\<lambda>url w. (Raises CancelledError, w))\<rparr>"

definition one_page :: "unit env" where
  "one_page = offline\<lparr>urlopen := (\<lambda>url w. (Body (py ''page''), w)),
     starttags := (\<lambda>html. [(py ''a'', [(py ''href'', Some (py ''/wiki/A''))]),
                             (py ''a'', [(py ''href'', Some (py ''/wiki/B''))])])\<rparr>"

definition start :: "unit state" where
  "start = \<lparr>world = (), db = Some [py ''https://h/wiki/Old''], visited = {}, trace = []\<rparr>"


text \<open>
  Two relations between the state before and after a piece of the program.
  \<open>quiet\<close>: nothing was visited or called, and no stored URL was lost.
  \<open>run_within d\<close>: the frames that went past the guard did so for URLs that are
  pairwise different and were not visited before, \<open>visited\<close> grew by exactly
  these, every call had a depth between 0 and \<open>d\<close>, and no stored URL was lost.
\<close>

definition quiet :: "'w state \<Rightarrow> 'w state \<Rightarrow> bool" where
  "quiet s s' \<longleftrightarrow>
     visited s' = visited s \<and> stored s \<subseteq> stored s' \<and>
     (\<exists>evs. trace s' = trace s @ evs \<and> explored evs = [] \<and> call_depths evs = [])"

definition run_within :: "int \<Rightarrow> 'w state \<Rightarrow> 'w state \<Rightarrow> bool" where
  "run_within d s s' \<longleftrightarrow>
     stored s \<subseteq> stored s' \<and>
     (\<exists>evs. trace s' = trace s @ evs \<and> distinct (explored evs) \<and>
        set (explored evs) \<inter> visited s = {} \<and>
        visited s' = visited s \<union> set (explored evs) \<and>
        (\<forall>c \<in> set (call_depths evs). 0 \<le> c \<and> c \<le> d))"


text \<open>
  \<open>frame_ok\<close>: the same for the frame of one call, whose own \<open>Call\<close> comes first
  and whose further calls have a depth below its own and not negative.
\<close>

definition frame_ok :: "pystr \<Rightarrow> int \<Rightarrow> 'w state \<Rightarrow> 'w state \<Rightarrow> bool" where
  "frame_ok url depth s s' \<longleftrightarrow>
     stored s \<subseteq> stored s' \<and>
     (\<exists>evs. trace s' = trace s @ Call url depth # evs \<and> distinct (explored evs) \<and>
        set (explored evs) \<inter> visited s = {} \<and>
        visited s' = visited s \<union> set (explored evs) \<and>
        (\<forall>c \<in> set (call_depths evs). 0 \<le> c \<and> c < depth))"


section \<open>Origins\<close>

text \<open>
  \<open>origin sch host\<close> is the base URL as \<open>main\<close> builds it from the scheme and the
  network location of the seed.  \<open>plain_host\<close> says of a network location what
  holds of one that \<open>urlsplit\<close> has returned for a seed that matched the pattern:
  it is not empty, has none of the characters that end it, no tab and no line
  break, and passes the validation.  \<open>same_origin\<close>: both URLs parse, to the same
  scheme and the same network location, neither of them empty.
\<close>

definition origin :: "pystr \<Rightarrow> pystr \<Rightarrow> pystr" where
  "origin sch host = sch @ py ''://'' @ host"

definition host_char :: "nat \<Rightarrow> bool" where
  "host_char c \<longleftrightarrow> \<not> netloc_delim c \<and> c \<noteq> 9 \<and> c \<noteq> 13 \<and> c \<noteq> 10"

definition plain_host :: "(pystr \<Rightarrow> bool) \<Rightarrow> pystr \<Rightarrow> bool" where
  "plain_host ok host \<longleftrightarrow> host \<noteq> [] \<and> list_all host_char host \<and> \<not> netloc_raises ok host"

definition same_origin :: "(pystr \<Rightarrow> bool) \<Rightarrow> pystr \<Rightarrow> pystr \<Rightarrow> bool" where
  "same_origin ok base url \<longleftrightarrow>
     (case urlsplit ok base [] of
        Inl e \<Rightarrow> False
      | Inr (bsch, bloc, brest) \<Rightarrow>
          (case urlsplit ok url [] of
             Inl e \<Rightarrow> False
           | Inr (usch, uloc, urest) \<Rightarrow>
               usch = bsch \<and> uloc = bloc \<and> usch \<noteq> [] \<and> uloc \<noteq> []))"


section \<open>The extractor yields article links only\<close>

lemma scan_attrs_links:
  "set (snd (scan_attrs attrs links)) \<subseteq> set links \<union> {h. article_link h}"
proof (induction attrs arbitrary: links)
  case Nil
  then show ?case by simp
next
  case (Cons a attrs)
  obtain k v where a: "a = (k, v)" by (cases a)
  show ?case
  proof (cases "k = py ''href''")
    case False
    with a Cons.IH [of links] show ?thesis by simp
  next
    case True
    show ?thesis
    proof (cases v)
      case None
      with a True show ?thesis by simp
    next
      case (Some h)
      show ?thesis
      proof (cases "article_link h")
        case True
        have "set (set_add h links) \<subseteq> set links \<union> {h. article_link h}"
          using True by (auto simp: set_add_def)
        with Cons.IH [of "set_add h links"] a \<open>k = py ''href''\<close> Some True
        show ?thesis by (auto simp: article_link_def)
      next
        case False
        with Cons.IH [of links] a \<open>k = py ''href''\<close> Some
        show ?thesis by (auto simp: article_link_def)
      qed
    qed
  qed
qed

lemma handle_starttag_links:
  "set (snd (handle_starttag tag attrs links)) \<subseteq> set links \<union> {h. article_link h}"
  using scan_attrs_links [of attrs links] by (simp add: handle_starttag_def)

lemma feed_links:
  "set (snd (feed tags links)) \<subseteq> set links \<union> {h. article_link h}"
proof (induction tags arbitrary: links)
  case Nil
  then show ?case by simp
next
  case (Cons t tags)
  obtain tag attrs where t: "t = (tag, attrs)" by (cases t)
  obtain r links' where h: "handle_starttag tag attrs links = (r, links')"
    by (cases "handle_starttag tag attrs links")
  have sub: "set links' \<subseteq> set links \<union> {h. article_link h}"
    using handle_starttag_links [of tag attrs links] h by simp
  show ?case
  proof (cases r)
    case None
    with t h Cons.IH [of links'] sub show ?thesis by auto
  next
    case (Some e)
    with t h sub show ?thesis by simp
  qed
qed

lemma scan_attrs_skip:
  "\<forall>(k, v) \<in> set attrs. k = py ''href'' \<longrightarrow> (\<exists>h. v = Some h \<and> \<not> article_link h)
   \<Longrightarrow> scan_attrs attrs links = (None, links)"
  by (induction attrs arbitrary: links) (auto simp: article_link_def)

text \<open>
  C5.  Whatever start tags the parser is fed, every string of the resulting
  \<open>links\<close> starts with \<open>/wiki\<close> and contains no colon; and a start tag none of whose
  attributes is an \<open>href\<close> (in particular an anchor without one), or whose \<open>href\<close>
  values all fail the rule (not starting with \<open>/wiki\<close>, or containing a colon),
  leaves \<open>links\<close> as it was and raises nothing.
\<close>

theorem extractor_only_article_links:
  "(\<forall>l \<in> set (snd (feed tags [])).
       startswith l (py ''/wiki'') \<and> ch CHR '':'' \<notin> set l) \<and>
   ((\<forall>(k, v) \<in> set attrs. k = py ''href'' \<longrightarrow>
        (\<exists>h. v = Some h \<and> \<not> (startswith h (py ''/wiki'') \<and> ch CHR '':'' \<notin> set h)))
     \<longrightarrow> handle_starttag tag attrs links = (None, links))"
proof (rule conjI)
  show "\<forall>l \<in> set (snd (feed tags [])).
       startswith l (py ''/wiki'') \<and> ch CHR '':'' \<notin> set l"
  proof (rule ballI)
    fix l assume "l \<in> set (snd (feed tags []))"
    with feed_links [of tags "[]"] have "article_link l" by auto
    then show "startswith l (py ''/wiki'') \<and> ch CHR '':'' \<notin> set l"
      by (simp add: article_link_def)
  qed
next
  show "(\<forall>(k, v) \<in> set attrs. k = py ''href'' \<longrightarrow>
        (\<exists>h. v = Some h \<and> \<not> (startswith h (py ''/wiki'') \<and> ch CHR '':'' \<notin> set h)))
     \<longrightarrow> handle_starttag tag attrs links = (None, links)"
  proof (rule impI)
    assume "\<forall>(k, v) \<in> set attrs. k = py ''href'' \<longrightarrow>
        (\<exists>h. v = Some h \<and> \<not> (startswith h (py ''/wiki'') \<and> ch CHR '':'' \<notin> set h))"
    then have "\<forall>(k, v) \<in> set attrs. k = py ''href'' \<longrightarrow> (\<exists>h. v = Some h \<and> \<not> article_link h)"
      by (simp add: article_link_def)
    then have "scan_attrs attrs links = (None, links)"
      by (rule scan_attrs_skip)
    then show "handle_starttag tag attrs links = (None, links)"
      by (simp add: handle_starttag_def)
  qed
qed

theorem extractor_only_article_links_witness:
  "snd (feed [(py ''a'', [(py ''href'', Some (py ''/wiki/Python''))]),
              (py ''a'', [(py ''href'', Some (py ''/wiki/Python:History''))]),
              (py ''a'', [(py ''href'', Some (py ''https://python.org''))])] [])
     = [py ''/wiki/Python''] \<and>
   startswith (py ''/wiki/Python'') (py ''/wiki'') \<and>
   ch CHR '':'' \<notin> set (py ''/wiki/Python'') \<and>
   handle_starttag (py ''a'') [(py ''class'', Some (py ''x'')),
       (py ''href'', Some (py ''https://python.org''))] [py ''/wiki/Python'']
     = (None, [py ''/wiki/Python''])"
proof -
  let ?tags = "[(py ''a'', [(py ''href'', Some (py ''/wiki/Python''))]),
              (py ''a'', [(py ''href'', Some (py ''/wiki/Python:History''))]),
              (py ''a'', [(py ''href'', Some (py ''https://python.org''))])]"
  let ?attrs = "[(py ''class'', Some (py ''x'')),
       (py ''href'', Some (py ''https://python.org''))]"
  have val: "snd (feed ?tags []) = [py ''/wiki/Python'']"
    by (simp add: handle_starttag_def startswith_def set_add_def py_def ch_def)
  have hyp: "\<forall>(k, v) \<in> set ?attrs. k = py ''href'' \<longrightarrow>
        (\<exists>h. v = Some h \<and> \<not> (startswith h (py ''/wiki'') \<and> ch CHR '':'' \<notin> set h))"
    by (simp add: startswith_def py_def ch_def)
  note inst = extractor_only_article_links
    [of ?tags ?attrs "py ''a''" "[py ''/wiki/Python'']"]
  from inst have "\<forall>l \<in> set (snd (feed ?tags [])).
       startswith l (py ''/wiki'') \<and> ch CHR '':'' \<notin> set l"
    by (rule conjunct1)
  with val have a: "startswith (py ''/wiki/Python'') (py ''/wiki'') \<and>
      ch CHR '':'' \<notin> set (py ''/wiki/Python'')"
    by simp
  from inst hyp have b: "handle_starttag (py ''a'') ?attrs [py ''/wiki/Python'']
      = (None, [py ''/wiki/Python''])"
    by blast
  from val a b show ?thesis by blast
qed


section \<open>The state through the steps of the program\<close>

lemma emit_fields [simp]:
  "world (emit evs s) = world s"
  "db (emit evs s) = db s"
  "visited (emit evs s) = visited s"
  "trace (emit evs s) = trace s @ evs"
  by (simp_all add: emit_def)

lemma emit_emit: "emit evs' (emit evs s) = emit (evs @ evs') s"
  by (simp add: emit_def)

lemma stored_emit [simp]: "stored (emit evs s) = stored s"
  by (simp add: stored_def)

lemma set_insert_all: "set (insert_all rows urls) = set rows \<union> set urls"
  by (induction urls arbitrary: rows) (auto simp: insert_or_ignore_def)

lemma insert_all_present: "set urls \<subseteq> set rows \<Longrightarrow> insert_all rows urls = rows"
  by (induction urls arbitrary: rows) (auto simp: insert_or_ignore_def)

lemma set_create_table: "set (create_table_if_not_exists d) = (case d of None \<Rightarrow> {} | Some rows \<Rightarrow> set rows)"
  by (simp add: create_table_if_not_exists_def split: option.split)

lemma execute_inserts_eq:
  "execute_inserts rows urls =
     (if list_all encodable urls then Inr (insert_all rows urls) else Inl UnicodeEncodeError)"
  by (induction urls arbitrary: rows) simp_all

lemma save_to_db_ok:
  assumes "sqlite_fails env (world s) = (False, w)" and "list_all encodable urls"
  shows "save_to_db env db_name urls s =
    (None, emit [Saved urls]
       (s\<lparr>world := w, db := Some (insert_all (create_table_if_not_exists (db s)) urls)\<rparr>))"
  using assms by (simp add: save_to_db_def execute_inserts_eq)

lemma save_to_db_raises:
  assumes "save_to_db env db_name urls s = (Some e, s1)"
  shows "visited s1 = visited s \<and> trace s1 = trace s \<and> stored s1 = stored s"
  using assms
  by (auto simp: save_to_db_def execute_inserts_eq stored_def create_table_if_not_exists_def
      split: prod.splits bool.splits if_splits option.splits)

lemma quote_encodable: "quote url safe = Inr q \<Longrightarrow> encodable url"
  by (cases "url = []") (auto simp: quote_def encodable_def split: sum.splits)

lemma stored_after_save:
  "stored (emit evs (s\<lparr>world := w, db := Some (insert_all (create_table_if_not_exists (db s)) urls)\<rparr>))
     = set urls \<union> stored s"
  by (auto simp: stored_def set_insert_all set_create_table split: option.splits)


section \<open>Saving twice\<close>

text \<open>
  C4, as the code has it.  When every URL given can be encoded as UTF-8 and
  \<open>sqlite3\<close> does not fail, \<open>save_to_db\<close> called twice with the same URLs raises
  nothing, the URLs in the table after the second call are those after the
  first, namely the URLs given together with those that were there before (none
  when there was no table); the second call leaves the table itself as it was,
  each of its insertions being ignored.
\<close>

theorem save_to_db_idempotent:
  assumes "sqlite_fails env (world s) = (False, w1)"
    and "sqlite_fails env w1 = (False, w2)"
    and "list_all encodable urls"
  shows "\<exists>s1 s2. save_to_db env db_name urls s = (None, s1) \<and>
           save_to_db env db_name urls s1 = (None, s2) \<and>
           stored s1 = set urls \<union> stored s \<and>
           stored s2 = set urls \<union> stored s \<and>
           db s2 = db s1 \<and>
           (\<forall>rows url. db s1 = Some rows \<and> url \<in> set urls \<longrightarrow> insert_or_ignore rows url = rows)"
proof -
  let ?rows = "insert_all (create_table_if_not_exists (db s)) urls"
  let ?s1 = "emit [Saved urls] (s\<lparr>world := w1, db := Some ?rows\<rparr>)"
  let ?s2 = "emit [Saved urls] (?s1\<lparr>world := w2,
      db := Some (insert_all (create_table_if_not_exists (db ?s1)) urls)\<rparr>)"
  have first: "save_to_db env db_name urls s = (None, ?s1)"
    using assms(1,3) by (rule save_to_db_ok)
  have "sqlite_fails env (world ?s1) = (False, w2)"
    using assms(2) by simp
  then have second: "save_to_db env db_name urls ?s1 = (None, ?s2)"
    using assms(3) by (rule save_to_db_ok)
  have there: "set urls \<subseteq> set ?rows"
    by (simp add: set_insert_all)
  have same: "insert_all (create_table_if_not_exists (db ?s1)) urls = ?rows"
    using insert_all_present [OF there] by (simp add: create_table_if_not_exists_def)
  have st1: "stored ?s1 = set urls \<union> stored s"
    by (rule stored_after_save)
  have db2: "db ?s2 = db ?s1"
    using same by simp
  then have st2: "stored ?s2 = set urls \<union> stored s"
    using st1 by (simp add: stored_def)
  have ign: "\<forall>rows url. db ?s1 = Some rows \<and> url \<in> set urls \<longrightarrow> insert_or_ignore rows url = rows"
    using there by (auto simp: insert_or_ignore_def)
  from first second st1 st2 db2 ign show ?thesis by blast
qed

theorem save_to_db_idempotent_witness:
  "fst (save_to_db offline (py ''db'') [py ''u1'', py ''u2''] start) = None \<and>
   stored (snd (save_to_db offline (py ''db'') [py ''u1'', py ''u2''] start))
     = {py ''u1'', py ''u2'', py ''https://h/wiki/Old''} \<and>
   stored (snd (save_to_db offline (py ''db'') [py ''u1'', py ''u2'']
       (snd (save_to_db offline (py ''db'') [py ''u1'', py ''u2''] start))))
     = {py ''u1'', py ''u2'', py ''https://h/wiki/Old''}"
proof -
  have a: "sqlite_fails offline (world start) = (False, ())"
    by (simp add: offline_def)
  have b: "sqlite_fails offline () = (False, ())"
    by (simp add: offline_def)
  have c: "list_all encodable [py ''u1'', py ''u2'']"
    by (simp add: encodable_def py_def ch_def utf8_encode_char_def)
  from save_to_db_idempotent [OF a b c, of "py ''db''"]
  obtain s1 s2 where
    r: "save_to_db offline (py ''db'') [py ''u1'', py ''u2''] start = (None, s1)"
       "save_to_db offline (py ''db'') [py ''u1'', py ''u2''] s1 = (None, s2)"
       "stored s1 = set [py ''u1'', py ''u2''] \<union> stored start"
       "stored s2 = set [py ''u1'', py ''u2''] \<union> stored start"
    by blast
  have "stored start = {py ''https://h/wiki/Old''}"
    by (simp add: stored_def start_def)
  with r show ?thesis by auto
qed

text \<open>
  A URL with a lone surrogate cannot be bound: \<open>save_to_db\<close> raises and the table
  holds what it held.
\<close>

theorem save_to_db_unencodable:
  "fst (save_to_db offline (py ''db'') [[55296]] start) = Some UnicodeEncodeError \<and>
   stored (snd (save_to_db offline (py ''db'') [[55296]] start)) = {py ''https://h/wiki/Old''}"
  by (simp add: save_to_db_def offline_def start_def stored_def create_table_if_not_exists_def
      encodable_def utf8_encode_char_def)



section \<open>An invalid seed\<close>

text \<open>
  C8.  When the seed argument does not match the pattern, \<open>main\<close> prints its
  message and leaves through \<open>sys.exit(1)\<close>, whatever the recursion budget: the
  exit status is 1, not 0, and nothing was asked of the network or of the
  database, which is as it was (no table dropped, no row inserted, no page
  fetched).
\<close>

theorem invalid_seed_exits:
  assumes "2 \<le> length argv" and "\<not> re_match_seed (argv ! 1)"
  shows "\<exists>s'. main fuel env argv s = Some (Some (SystemExit 1), s') \<and>
           exit_status (Some (SystemExit 1)) = 1 \<and>
           db s' = db s \<and> world s' = world s \<and> visited s' = visited s \<and>
           trace s' = trace s @ [Printed_invalid, Shutdown]"
proof -
  have "main_try fuel env argv s = Some (Some (SystemExit 1), emit [Printed_invalid] s)"
    using assms by (simp add: main_try_def)
  then have "main fuel env argv s = Some (Some (SystemExit 1), emit [Printed_invalid, Shutdown] s)"
    by (simp add: main_def emit_emit)
  then show ?thesis by simp
qed

theorem invalid_seed_exits_witness:
  "main 0 offline [py ''main.py'', py ''not-a-url''] start
     = Some (Some (SystemExit 1), start\<lparr>trace := [Printed_invalid, Shutdown]\<rparr>)"
proof -
  have a: "2 \<le> length [py ''main.py'', py ''not-a-url'']"
    by simp
  have b: "\<not> re_match_seed ([py ''main.py'', py ''not-a-url''] ! 1)"
    by (simp add: re_match_seed_def startswith_def py_def ch_def)
  from invalid_seed_exits [OF a b, of 0 offline start]
  obtain s' where r: "main 0 offline [py ''main.py'', py ''not-a-url''] start
        = Some (Some (SystemExit 1), s')"
    and f: "db s' = db start" "world s' = world start" "visited s' = visited start"
      "trace s' = trace start @ [Printed_invalid, Shutdown]"
    by blast
  from f have "s' = start\<lparr>trace := [Printed_invalid, Shutdown]\<rparr>"
    by (simp add: start_def)
  with r show ?thesis by simp
qed



section \<open>The traversal\<close>

lemma explored_append [simp]: "explored (xs @ ys) = explored xs @ explored ys"
  by (induction xs rule: explored.induct) simp_all

lemma call_depths_append [simp]: "call_depths (xs @ ys) = call_depths xs @ call_depths ys"
  by (induction xs rule: call_depths.induct) simp_all

lemma quiet_refl: "quiet s s"
  by (simp add: quiet_def)

lemma quiet_run_within: "quiet s s' \<Longrightarrow> run_within d s s'"
  unfolding quiet_def run_within_def by (elim conjE exE) auto

lemma run_within_trans:
  assumes "run_within d s s1" and "run_within d s1 s2"
  shows "run_within d s s2"
proof -
  from assms(1) obtain e1 where a: "stored s \<subseteq> stored s1" "trace s1 = trace s @ e1"
      "distinct (explored e1)" "set (explored e1) \<inter> visited s = {}"
      "visited s1 = visited s \<union> set (explored e1)"
      "\<forall>c \<in> set (call_depths e1). 0 \<le> c \<and> c \<le> d"
    unfolding run_within_def by blast
  from assms(2) obtain e2 where b: "stored s1 \<subseteq> stored s2" "trace s2 = trace s1 @ e2"
      "distinct (explored e2)" "set (explored e2) \<inter> visited s1 = {}"
      "visited s2 = visited s1 \<union> set (explored e2)"
      "\<forall>c \<in> set (call_depths e2). 0 \<le> c \<and> c \<le> d"
    unfolding run_within_def by blast
  have 1: "stored s \<subseteq> stored s2" using a(1) b(1) by blast
  have 2: "trace s2 = trace s @ (e1 @ e2)" using a(2) b(2) by simp
  have 3: "distinct (explored (e1 @ e2))" using a(3,5) b(3,4) by auto
  have 4: "set (explored (e1 @ e2)) \<inter> visited s = {}" using a(4,5) b(4) by auto
  have 5: "visited s2 = visited s \<union> set (explored (e1 @ e2))" using a(5) b(5) by auto
  have 6: "\<forall>c \<in> set (call_depths (e1 @ e2)). 0 \<le> c \<and> c \<le> d" using a(6) b(6) by auto
  from 1 2 3 4 5 6 show ?thesis unfolding run_within_def by blast
qed

lemma quiet_emit:
  "explored evs = [] \<Longrightarrow> call_depths evs = [] \<Longrightarrow> quiet s (emit evs s)"
  by (simp add: quiet_def)

lemma get_page_quiet: "get_page env url s = (r, s1) \<Longrightarrow> quiet s s1"
  by (auto simp: get_page_def quiet_def stored_def
      split: sum.splits response.splits prod.splits)

lemma get_links_from_page_quiet: "get_links_from_page env url base s = (r, s1) \<Longrightarrow> quiet s s1"
  by (auto simp: get_links_from_page_def dest: get_page_quiet
      split: sum.splits prod.splits if_splits option.splits)

lemma save_to_db_quiet: "save_to_db env db_name urls s = (r, s1) \<Longrightarrow> quiet s s1"
  by (auto simp: save_to_db_def execute_inserts_eq quiet_def stored_def set_insert_all
      set_create_table split: prod.splits bool.splits option.splits if_splits)

lemma for_each_run_within:
  assumes "\<And>link s x s'. call link s = Some (x, s') \<Longrightarrow> run_within d s s'"
    and "for_each call links s = Some (x, s')"
  shows "run_within d s s'"
  using assms(2)
proof (induction links arbitrary: s)
  case Nil
  then show ?case by (simp add: quiet_run_within quiet_refl)
next
  case (Cons link links)
  from Cons.prems obtain y s1 where c: "call link s = Some (y, s1)"
    by (auto split: option.splits)
  then have r1: "run_within d s s1" by (rule assms(1))
  show ?case
  proof (cases y)
    case None
    with c Cons.prems have "for_each call links s1 = Some (x, s')" by simp
    then have "run_within d s1 s'" by (rule Cons.IH)
    with r1 show ?thesis by (rule run_within_trans)
  next
    case (Some e)
    with c Cons.prems have "s' = s1" by simp
    with r1 show ?thesis by simp
  qed
qed

lemma try_block_run_within:
  assumes "\<And>link s x s'. call link s = Some (x, s') \<Longrightarrow> run_within d s s'"
    and "try_block call env base url db_name s = Some (x, s')"
  shows "run_within d s s'"
proof -
  obtain r s1 where g: "get_links_from_page env url base s = (r, s1)"
    by (cases "get_links_from_page env url base s")
  then have q1: "run_within d s s1"
    by (intro quiet_run_within get_links_from_page_quiet)
  show ?thesis
  proof (cases r)
    case (Inl e)
    with g assms(2) have "s' = s1" by (simp add: try_block_def)
    with q1 show ?thesis by simp
  next
    case (Inr links)
    obtain r2 s2 where sv: "save_to_db env db_name links s1 = (r2, s2)"
      by (cases "save_to_db env db_name links s1")
    then have q2: "run_within d s1 s2"
      by (intro quiet_run_within save_to_db_quiet)
    show ?thesis
    proof (cases r2)
      case (Some e)
      with g Inr sv assms(2) have "s' = s2" by (simp add: try_block_def)
      with q1 q2 show ?thesis by (auto intro: run_within_trans)
    next
      case None
      with g Inr sv assms(2) have "for_each call links s2 = Some (x, s')"
        by (simp add: try_block_def)
      then have "run_within d s2 s'"
        by (rule for_each_run_within [rotated]) (rule assms(1))
      with q1 q2 show ?thesis by (blast intro: run_within_trans)
    qed
  qed
qed

lemma except_Exception_run_within:
  assumes "\<And>x s'. r = Some (x, s') \<Longrightarrow> run_within d s s'"
    and "except_Exception url depth r = Some (x, s')"
  shows "run_within d s s'"
proof (cases r)
  case None
  with assms(2) show ?thesis by (simp add: except_Exception_def)
next
  case (Some p)
  obtain y s1 where p: "p = (y, s1)" by (cases p)
  with Some have r1: "run_within d s s1" using assms(1) by simp
  show ?thesis
  proof (cases y)
    case None
    with Some p assms(2) have "s' = s1" by (simp add: except_Exception_def)
    with r1 show ?thesis by simp
  next
    case (Some e)
    with \<open>r = Some p\<close> p assms(2)
    have "s' = s1 \<or> s' = emit [Caught url depth e] s1
        \<or> s' = emit [Print_failed url depth e] s1"
      by (auto simp: except_Exception_def split: if_splits)
    moreover have "run_within d s1 (emit [Caught url depth e] s1)"
      by (intro quiet_run_within quiet_emit) simp_all
    moreover have "run_within d s1 (emit [Print_failed url depth e] s1)"
      by (intro quiet_run_within quiet_emit) simp_all
    ultimately show ?thesis using r1 by (auto intro: run_within_trans)
  qed
qed

lemma frame_ok_run_within:
  assumes "frame_ok url depth s s'" and "0 \<le> depth"
  shows "run_within depth s s'"
proof -
  from assms(1) obtain evs where a: "stored s \<subseteq> stored s'"
      "trace s' = trace s @ Call url depth # evs" "distinct (explored evs)"
      "set (explored evs) \<inter> visited s = {}" "visited s' = visited s \<union> set (explored evs)"
      "\<forall>c \<in> set (call_depths evs). 0 \<le> c \<and> c < depth"
    unfolding frame_ok_def by blast
  let ?evs = "Call url depth # evs"
  have "trace s' = trace s @ ?evs" using a(2) by simp
  moreover have "distinct (explored ?evs)" using a(3) by simp
  moreover have "set (explored ?evs) \<inter> visited s = {}" using a(4) by simp
  moreover have "visited s' = visited s \<union> set (explored ?evs)" using a(5) by simp
  moreover have "\<forall>c \<in> set (call_depths ?evs). 0 \<le> c \<and> c \<le> depth"
    using a(6) assms(2) by auto
  ultimately show ?thesis using a(1) unfolding run_within_def by blast
qed

lemma scrap_frame_ok:
  "0 \<le> depth \<Longrightarrow> recursive_url_scrap fuel env base url db_name depth s = Some (x, s')
     \<Longrightarrow> frame_ok url depth s s'"
proof (induction fuel arbitrary: depth url s x s')
  case 0
  then show ?case by simp
next
  case (Suc fuel)
  show ?case
  proof (cases "depth = 0 \<or> url \<in> visited s")
    case True
    with Suc.prems(2) have "s' = emit [Call url depth] s" by auto
    then show ?thesis by (simp add: frame_ok_def)
  next
    case False
    then have pos: "0 \<le> depth - 1" using Suc.prems(1) by simp
    let ?call = "\<lambda>link. recursive_url_scrap fuel env base link db_name (depth - 1)"
    let ?s0 = "emit [Call url depth, Explored url depth] (s\<lparr>visited := insert url (visited s)\<rparr>)"
    have child: "\<And>link t y t'. ?call link t = Some (y, t') \<Longrightarrow> run_within (depth - 1) t t'"
      using Suc.IH [OF pos] pos by (blast intro: frame_ok_run_within)
    have body: "\<And>y t'. try_block ?call env base url db_name ?s0 = Some (y, t')
        \<Longrightarrow> run_within (depth - 1) ?s0 t'"
      using child by (rule try_block_run_within)
    from False Suc.prems(2)
    have "except_Exception url depth (try_block ?call env base url db_name ?s0) = Some (x, s')"
      by simp
    then have "run_within (depth - 1) ?s0 s'"
      using body by (rule except_Exception_run_within [rotated])
    then obtain evs where a: "stored ?s0 \<subseteq> stored s'" "trace s' = trace ?s0 @ evs"
        "distinct (explored evs)" "set (explored evs) \<inter> visited ?s0 = {}"
        "visited s' = visited ?s0 \<union> set (explored evs)"
        "\<forall>c \<in> set (call_depths evs). 0 \<le> c \<and> c \<le> depth - 1"
      unfolding run_within_def by blast
    let ?evs = "Explored url depth # evs"
    have 1: "stored s \<subseteq> stored s'" using a(1) by (simp add: stored_def)
    have 2: "trace s' = trace s @ Call url depth # ?evs" using a(2) by simp
    have 3: "distinct (explored ?evs)" using a(3,4) by auto
    have 4: "set (explored ?evs) \<inter> visited s = {}" using a(4) False by auto
    have 5: "visited s' = visited s \<union> set (explored ?evs)" using a(5) by auto
    have 6: "\<forall>c \<in> set (call_depths ?evs). 0 \<le> c \<and> c < depth" using a(6) by auto
    from 1 2 3 4 5 6 show ?thesis unfolding frame_ok_def by blast
  qed
qed

text \<open>With a depth that is not negative, \<open>depth + 1\<close> frames are enough.\<close>

lemma for_each_returns:
  assumes "\<And>link s. \<exists>x s'. call link s = Some (x, s')"
  shows "\<exists>x s'. for_each call links s = Some (x, s')"
proof (induction links arbitrary: s)
  case Nil
  show ?case by simp
next
  case (Cons link links)
  from assms obtain y s1 where c: "call link s = Some (y, s1)" by blast
  show ?case
  proof (cases y)
    case None
    with c Cons.IH [of s1] show ?thesis by simp
  next
    case (Some e)
    with c show ?thesis by simp
  qed
qed

lemma try_block_returns:
  assumes "\<And>link s. \<exists>x s'. call link s = Some (x, s')"
  shows "\<exists>x s'. try_block call env base url db_name s = Some (x, s')"
  using for_each_returns [of call, OF assms]
  by (simp add: try_block_def split: prod.splits sum.splits option.splits)

lemma except_Exception_returns:
  "\<exists>x s'. r = Some (x, s') \<Longrightarrow> \<exists>x s'. except_Exception url depth r = Some (x, s')"
  by (auto simp: except_Exception_def split: option.splits)

lemma scrap_returns:
  "0 \<le> depth \<Longrightarrow> nat depth < fuel
     \<Longrightarrow> \<exists>x s'. recursive_url_scrap fuel env base url db_name depth s = Some (x, s')"
proof (induction fuel arbitrary: depth url s)
  case 0
  then show ?case by simp
next
  case (Suc fuel)
  show ?case
  proof (cases "depth = 0 \<or> url \<in> visited s")
    case True
    then show ?thesis by auto
  next
    case False
    with Suc.prems have "0 \<le> depth - 1" "nat (depth - 1) < fuel" by auto
    then have "\<And>link t. \<exists>x s'. recursive_url_scrap fuel env base link db_name (depth - 1) t
        = Some (x, s')"
      by (rule Suc.IH)
    then have "\<exists>x s'. try_block (\<lambda>link. recursive_url_scrap fuel env base link db_name (depth - 1))
        env base url db_name
        (emit [Call url depth, Explored url depth] (s\<lparr>visited := insert url (visited s)\<rparr>))
        = Some (x, s')"
      by (rule try_block_returns)
    then show ?thesis
      using False by (simp add: except_Exception_returns)
  qed
qed



section \<open>Each URL is explored once\<close>

lemma scrap_explores_first:
  assumes "0 \<le> depth" and "depth \<noteq> 0" and "url \<notin> visited s"
    and "recursive_url_scrap (Suc fuel) env base url db_name depth s = Some (x, s')"
  shows "\<exists>evs. trace s' = trace s @ Call url depth # Explored url depth # evs"
proof -
  let ?call = "\<lambda>link. recursive_url_scrap fuel env base link db_name (depth - 1)"
  let ?s0 = "emit [Call url depth, Explored url depth] (s\<lparr>visited := insert url (visited s)\<rparr>)"
  have pos: "0 \<le> depth - 1" using assms(1,2) by simp
  have child: "\<And>link t y t'. ?call link t = Some (y, t') \<Longrightarrow> run_within (depth - 1) t t'"
    using scrap_frame_ok [OF pos] pos by (blast intro: frame_ok_run_within)
  have body: "\<And>y t'. try_block ?call env base url db_name ?s0 = Some (y, t')
      \<Longrightarrow> run_within (depth - 1) ?s0 t'"
    using child by (rule try_block_run_within)
  from assms(2-4)
  have "except_Exception url depth (try_block ?call env base url db_name ?s0) = Some (x, s')"
    by simp
  then have "run_within (depth - 1) ?s0 s'"
    using body by (rule except_Exception_run_within [rotated])
  then obtain evs where "trace s' = trace ?s0 @ evs"
    unfolding run_within_def by blast
  then have "trace s' = trace s @ Call url depth # Explored url depth # evs"
    by simp
  then show ?thesis by blast
qed

text \<open>
  C2.  A traversal started with a depth that is not negative returns (within
  \<open>depth + 1\<close> frames), and in what it did after its own call: the URLs of the
  frames that went past the guard are pairwise different and none of them was
  visited before, so that no URL is explored twice; \<open>visited\<close> has grown by
  exactly these URLs; every further call has a depth that is smaller than the
  depth of the traversal and not negative; and when the traversal itself goes
  past the guard, its URL is marked as visited first, ahead of any fetch or
  recursive call.
\<close>

theorem no_url_explored_twice:
  assumes "0 \<le> depth" and "nat depth < fuel"
  shows "\<exists>x s' evs.
     recursive_url_scrap fuel env base_url current_url db_name depth s = Some (x, s') \<and>
     trace s' = trace s @ Call current_url depth # evs \<and>
     distinct (explored evs) \<and>
     set (explored evs) \<inter> visited s = {} \<and>
     visited s' = visited s \<union> set (explored evs) \<and>
     (\<forall>c \<in> set (call_depths evs). 0 \<le> c \<and> c < depth) \<and>
     (depth \<noteq> 0 \<and> current_url \<notin> visited s \<longrightarrow>
        (\<exists>evs'. evs = Explored current_url depth # evs'))"
proof -
  from scrap_returns [OF assms] obtain x s' where
    r: "recursive_url_scrap fuel env base_url current_url db_name depth s = Some (x, s')"
    by blast
  from scrap_frame_ok [OF assms(1) r] obtain evs where
    f: "trace s' = trace s @ Call current_url depth # evs" "distinct (explored evs)"
      "set (explored evs) \<inter> visited s = {}" "visited s' = visited s \<union> set (explored evs)"
      "\<forall>c \<in> set (call_depths evs). 0 \<le> c \<and> c < depth"
    unfolding frame_ok_def by blast
  have first: "depth \<noteq> 0 \<and> current_url \<notin> visited s \<longrightarrow>
        (\<exists>evs'. evs = Explored current_url depth # evs')"
  proof
    assume g: "depth \<noteq> 0 \<and> current_url \<notin> visited s"
    from assms(2) obtain k where k: "fuel = Suc k" by (cases fuel) auto
    from scrap_explores_first [OF assms(1) _ _ r [unfolded k]] g
    obtain evs' where "trace s' = trace s @ Call current_url depth # Explored current_url depth # evs'"
      by blast
    with f(1) have "evs = Explored current_url depth # evs'" by simp
    then show "\<exists>evs'. evs = Explored current_url depth # evs'" by blast
  qed
  from r f first show ?thesis by blast
qed

lemma quote_u: "quote (py ''u'') (py '':/?&='') = Inr (py ''u'')"
  by (simp add: quote_def py_def ch_def utf8_encode_char_def quote_byte_def always_safe_def
      ascii_alpha_def ascii_digit_def)

lemma offline_frame:
  "recursive_url_scrap (Suc fuel) offline base (py ''u'') db_name 2 start
     = Some (None, \<lparr>world = (), db = Some [py ''https://h/wiki/Old''], visited = {py ''u''},
          trace = [Call (py ''u'') 2, Explored (py ''u'') 2, Fetched (py ''u''),
                   Printed_url_error (py ''u''), Saved []]\<rparr>)"
  by (simp add: quote_u try_block_def get_links_from_page_def get_page_def save_to_db_def
      create_table_if_not_exists_def offline_def start_def except_Exception_def emit_def)

theorem no_url_explored_twice_witness:
  "(0::int) \<le> 2 \<and> nat 2 < Suc (Suc (Suc 0)) \<and>
   (\<exists>evs. [Call (py ''u'') 2, Explored (py ''u'') 2, Fetched (py ''u''),
            Printed_url_error (py ''u''), Saved []] = Call (py ''u'') 2 # evs \<and>
      distinct (explored evs) \<and> {py ''u''} = set (explored evs))"
proof -
  have a: "(0::int) \<le> 2" by simp
  have b: "nat 2 < Suc (Suc (Suc 0))" by simp
  from no_url_explored_twice [OF a b, of offline "py ''h''" "py ''u''" "py ''db''" start]
  obtain x s' evs where
    r: "recursive_url_scrap (Suc (Suc (Suc 0))) offline (py ''h'') (py ''u'') (py ''db'') 2 start
          = Some (x, s')"
    and t: "trace s' = trace start @ Call (py ''u'') 2 # evs"
    and d: "distinct (explored evs)"
    and v: "visited s' = visited start \<union> set (explored evs)"
    by blast
  from r have s': "s' = \<lparr>world = (), db = Some [py ''https://h/wiki/Old''], visited = {py ''u''},
          trace = [Call (py ''u'') 2, Explored (py ''u'') 2, Fetched (py ''u''),
                   Printed_url_error (py ''u''), Saved []]\<rparr>"
    by (simp only: offline_frame) simp
  from t s' have "[Call (py ''u'') 2, Explored (py ''u'') 2, Fetched (py ''u''),
            Printed_url_error (py ''u''), Saved []] = Call (py ''u'') 2 # evs"
    by (simp add: start_def)
  moreover from v s' have "{py ''u''} = set (explored evs)"
    by (simp add: start_def)
  ultimately show ?thesis using a b d by blast
qed



section \<open>Failures and the frame they happen in\<close>

lemma scrap_raises_Exception:
  assumes "recursive_url_scrap fuel env base url db_name depth s = Some (Some e, s')"
    and "isinstance_Exception e"
  shows "print_raises [url] \<and> e = UnicodeEncodeError"
proof (cases fuel)
  case 0
  with assms(1) show ?thesis by simp
next
  case (Suc k)
  with assms show ?thesis
    by (auto simp: except_Exception_def split: if_splits option.splits prod.splits)
qed

lemma not_print_raises_u: "\<not> print_raises [py ''u'']"
  by (simp add: print_raises_def encodable_def py_def ch_def utf8_encode_char_def)

text \<open>
  C1, as the code has it.  The handler is \<open>except Exception\<close>, and it prints a
  message that names the URL of its frame.  For a URL that can be printed: what
  a call of \<open>recursive_url_scrap\<close> raises, if it raises, is never an instance of
  \<open>Exception\<close>; and when the fetch, the extraction, the resolution or the saving
  for that URL raises an instance of \<open>Exception\<close>, the frame logs it and returns,
  and the loop of the caller goes on with the links that remain.  With a depth
  that is not negative a call comes to its end within \<open>depth + 1\<close> frames.
\<close>

theorem exceptions_stay_in_their_frame:
  "(\<not> print_raises [current_url] \<longrightarrow>
      (\<forall>e s'. recursive_url_scrap fuel env base_url current_url db_name depth s
                = Some (Some e, s') \<longrightarrow> \<not> isinstance_Exception e)) \<and>
   (0 \<le> depth \<and> nat depth < fuel \<longrightarrow>
       (\<exists>x s'. recursive_url_scrap fuel env base_url current_url db_name depth s = Some (x, s'))) \<and>
   (\<forall>e s1. depth \<noteq> 0 \<and> current_url \<notin> visited s \<and> isinstance_Exception e \<and>
       \<not> print_raises [current_url] \<and>
       try_block (\<lambda>link. recursive_url_scrap fuel env base_url link db_name (depth - 1))
         env base_url current_url db_name
         (emit [Call current_url depth, Explored current_url depth]
            (s\<lparr>visited := insert current_url (visited s)\<rparr>)) = Some (Some e, s1)
       \<longrightarrow>
       recursive_url_scrap (Suc fuel) env base_url current_url db_name depth s
         = Some (None, emit [Caught current_url depth e] s1) \<and>
       for_each (\<lambda>link. recursive_url_scrap (Suc fuel) env base_url link db_name depth)
         (current_url # links) s
         = for_each (\<lambda>link. recursive_url_scrap (Suc fuel) env base_url link db_name depth)
             links (emit [Caught current_url depth e] s1))"
proof (intro conjI allI impI)
  fix e s'
  assume "\<not> print_raises [current_url]"
    and "recursive_url_scrap fuel env base_url current_url db_name depth s = Some (Some e, s')"
  then show "\<not> isinstance_Exception e"
    using scrap_raises_Exception by blast
next
  assume "0 \<le> depth \<and> nat depth < fuel"
  then show "\<exists>x s'. recursive_url_scrap fuel env base_url current_url db_name depth s = Some (x, s')"
    by (simp add: scrap_returns)
next
  fix e s1
  assume a: "depth \<noteq> 0 \<and> current_url \<notin> visited s \<and> isinstance_Exception e \<and>
       \<not> print_raises [current_url] \<and>
       try_block (\<lambda>link. recursive_url_scrap fuel env base_url link db_name (depth - 1))
         env base_url current_url db_name
         (emit [Call current_url depth, Explored current_url depth]
            (s\<lparr>visited := insert current_url (visited s)\<rparr>)) = Some (Some e, s1)"
  then show r: "recursive_url_scrap (Suc fuel) env base_url current_url db_name depth s
         = Some (None, emit [Caught current_url depth e] s1)"
    by (simp add: except_Exception_def)
  show "for_each (\<lambda>link. recursive_url_scrap (Suc fuel) env base_url link db_name depth)
         (current_url # links) s
         = for_each (\<lambda>link. recursive_url_scrap (Suc fuel) env base_url link db_name depth)
             links (emit [Caught current_url depth e] s1)"
    by (simp only: for_each.simps r) simp
qed

text \<open>
  Two exceptions that do leave the frame.  One is outside \<open>Exception\<close>: a task
  cancelled during the pause of \<open>get_page\<close> makes the call raise \<open>CancelledError\<close>.
  The other is raised by the handler itself: for the URL \<open>http://h/\<close> followed by
  a lone surrogate, \<open>quote\<close> raises \<open>UnicodeEncodeError\<close>, the handler catches it, and
  its \<open>print\<close> of the URL raises \<open>UnicodeEncodeError\<close> in turn.
\<close>

lemma quote_surrogate: "quote (py ''http://h/'' @ [56575]) safe = Inl UnicodeEncodeError"
  by (simp add: quote_def py_def ch_def utf8_encode_char_def)

lemma print_raises_surrogate: "print_raises [py ''http://h/'' @ [56575]]"
  by (simp add: print_raises_def encodable_def py_def ch_def utf8_encode_char_def)

theorem exceptions_that_leave_the_frame:
  "map_option fst
     (recursive_url_scrap (Suc 0) cancelled (py ''http://h'') (py ''u'') (py ''db'') 1 start)
   = Some (Some CancelledError) \<and>
   map_option (\<lambda>(r, s'). (r, trace s'))
     (recursive_url_scrap (Suc 0) offline (py ''http://h'') (py ''http://h/'' @ [56575])
        (py ''db'') 6 start)
   = Some (Some UnicodeEncodeError,
       [Call (py ''http://h/'' @ [56575]) 6, Explored (py ''http://h/'' @ [56575]) 6,
        Print_failed (py ''http://h/'' @ [56575]) 6 UnicodeEncodeError])"
proof -
  have a: "map_option fst
     (recursive_url_scrap (Suc 0) cancelled (py ''http://h'') (py ''u'') (py ''db'') 1 start)
   = Some (Some CancelledError)"
    by (simp add: quote_u try_block_def get_links_from_page_def get_page_def cancelled_def
        offline_def start_def except_Exception_def emit_def)
  have t: "try_block call offline (py ''http://h'') (py ''http://h/'' @ [56575]) (py ''db'') t
      = Some (Some UnicodeEncodeError, t)" for call and t :: "unit state"
    by (simp add: try_block_def get_links_from_page_def get_page_def quote_surrogate)
  have v: "py ''http://h/'' @ [56575] \<notin> visited start" "trace start = []"
    by (simp_all add: start_def)
  have b: "map_option (\<lambda>(r, s'). (r, trace s'))
     (recursive_url_scrap (Suc 0) offline (py ''http://h'') (py ''http://h/'' @ [56575])
        (py ''db'') 6 start)
   = Some (Some UnicodeEncodeError,
       [Call (py ''http://h/'' @ [56575]) 6, Explored (py ''http://h/'' @ [56575]) 6,
        Print_failed (py ''http://h/'' @ [56575]) 6 UnicodeEncodeError])"
    by (simp add: t v except_Exception_def print_raises_surrogate)
  from a b show ?thesis by (rule conjI)
qed

lemma garbled_try_block:
  "try_block call garbled base (py ''u'') db_name s
     = Some (Some UnicodeDecodeError, emit [Fetched (py ''u'')] s)"
  by (simp add: quote_u try_block_def get_links_from_page_def get_page_def garbled_def
      offline_def)

theorem exceptions_stay_in_their_frame_witness:
  "recursive_url_scrap (Suc (Suc 0)) garbled (py ''h'') (py ''u'') (py ''db'') 1 start
     = Some (None, start\<lparr>visited := {py ''u''},
          trace := [Call (py ''u'') 1, Explored (py ''u'') 1, Fetched (py ''u''),
                    Caught (py ''u'') 1 UnicodeDecodeError]\<rparr>) \<and>
   for_each (\<lambda>link. recursive_url_scrap (Suc (Suc 0)) garbled (py ''h'') link (py ''db'') 1)
     [py ''u'', py ''v''] start
     = for_each (\<lambda>link. recursive_url_scrap (Suc (Suc 0)) garbled (py ''h'') link (py ''db'') 1)
         [py ''v'']
         (start\<lparr>visited := {py ''u''},
          trace := [Call (py ''u'') 1, Explored (py ''u'') 1, Fetched (py ''u''),
                    Caught (py ''u'') 1 UnicodeDecodeError]\<rparr>)"
proof -
  let ?s0 = "emit [Call (py ''u'') 1, Explored (py ''u'') 1]
      (start\<lparr>visited := insert (py ''u'') (visited start)\<rparr>)"
  let ?s1 = "emit [Fetched (py ''u'')] ?s0"
  have hyp: "(1::int) \<noteq> 0 \<and> py ''u'' \<notin> visited start \<and> isinstance_Exception UnicodeDecodeError \<and>
       \<not> print_raises [py ''u''] \<and>
       try_block (\<lambda>link. recursive_url_scrap (Suc 0) garbled (py ''h'') link (py ''db'') (1 - 1))
         garbled (py ''h'') (py ''u'') (py ''db'') ?s0 = Some (Some UnicodeDecodeError, ?s1)"
    by (simp add: garbled_try_block not_print_raises_u start_def)
  have st: "emit [Caught (py ''u'') 1 UnicodeDecodeError] ?s1
      = start\<lparr>visited := {py ''u''},
          trace := [Call (py ''u'') 1, Explored (py ''u'') 1, Fetched (py ''u''),
                    Caught (py ''u'') 1 UnicodeDecodeError]\<rparr>"
    by (simp add: emit_def start_def)
  from exceptions_stay_in_their_frame
    [where current_url = "py ''u''" and fuel = "Suc 0" and env = garbled and base_url = "py ''h''"
       and db_name = "py ''db''" and depth = 1 and s = start and links = "[py ''v'']"] hyp
  have "recursive_url_scrap (Suc (Suc 0)) garbled (py ''h'') (py ''u'') (py ''db'') 1 start
         = Some (None, emit [Caught (py ''u'') 1 UnicodeDecodeError] ?s1) \<and>
       for_each (\<lambda>link. recursive_url_scrap (Suc (Suc 0)) garbled (py ''h'') link (py ''db'') 1)
         [py ''u'', py ''v''] start
         = for_each (\<lambda>link. recursive_url_scrap (Suc (Suc 0)) garbled (py ''h'') link (py ''db'') 1)
             [py ''v''] (emit [Caught (py ''u'') 1 UnicodeDecodeError] ?s1)"
    by blast
  then show ?thesis by (simp only: st)
qed



section \<open>A page that cannot be fetched\<close>

lemma get_page_fetch_failure:
  assumes "quote url (py '':/?&='') = Inr q"
    and "fst (urlopen env q (world s)) = HTTPError code \<or> fst (urlopen env q (world s)) = URLError"
  shows "\<exists>evs w. explored evs = [] \<and> call_depths evs = [] \<and>
           get_page env url s = (Inr [], emit evs (s\<lparr>world := w\<rparr>))"
proof -
  obtain r w where u: "urlopen env q (world s) = (r, w)"
    by (cases "urlopen env q (world s)")
  with assms(2) have "r = HTTPError code \<or> r = URLError" by simp
  then show ?thesis
  proof
    assume "r = HTTPError code"
    with u assms(1)
    have "get_page env url s = (Inr [], emit [Fetched q, Printed_http_error code q] (s\<lparr>world := w\<rparr>))"
      by (simp add: get_page_def)
    moreover have "explored [Fetched q, Printed_http_error code q] = []"
      "call_depths [Fetched q, Printed_http_error code q] = []" by simp_all
    ultimately show ?thesis by blast
  next
    assume "r = URLError"
    with u assms(1)
    have "get_page env url s = (Inr [], emit [Fetched q, Printed_url_error q] (s\<lparr>world := w\<rparr>))"
      by (simp add: get_page_def)
    moreover have "explored [Fetched q, Printed_url_error q] = []"
      "call_depths [Fetched q, Printed_url_error q] = []" by simp_all
    ultimately show ?thesis by blast
  qed
qed

text \<open>
  C3.  When \<open>urlopen\<close> fails with an \<open>HTTPError\<close> or a \<open>URLError\<close>, \<open>get_page\<close> returns
  the empty string and raises nothing, \<open>get_links_from_page\<close> returns the empty
  set, and the traversal goes on: the frame of that URL returns without an
  exception (whether or not saving the empty set succeeds), and the loop of the
  caller goes on with the links that remain.
\<close>

theorem fetch_failure_is_not_fatal:
  assumes "quote current_url (py '':/?&='') = Inr q"
    and "fst (urlopen env q (world s)) = HTTPError code \<or> fst (urlopen env q (world s)) = URLError"
  shows "fst (get_page env current_url s) = Inr [] \<and>
     fst (get_links_from_page env current_url base_url s) = Inr [] \<and>
     (depth \<noteq> 0 \<and> current_url \<notin> visited s \<longrightarrow>
        (\<exists>s'. recursive_url_scrap (Suc fuel) env base_url current_url db_name depth s
                = Some (None, s') \<and>
              for_each (\<lambda>link. recursive_url_scrap (Suc fuel) env base_url link db_name depth)
                (current_url # links) s
              = for_each (\<lambda>link. recursive_url_scrap (Suc fuel) env base_url link db_name depth)
                  links s'))"
proof (intro conjI impI)
  from get_page_fetch_failure [OF assms] obtain evs w where
    "get_page env current_url s = (Inr [], emit evs (s\<lparr>world := w\<rparr>))" by blast
  then show "fst (get_page env current_url s) = Inr []"
    and "fst (get_links_from_page env current_url base_url s) = Inr []"
    by (simp_all add: get_links_from_page_def)
next
  assume g: "depth \<noteq> 0 \<and> current_url \<notin> visited s"
  let ?call = "\<lambda>link. recursive_url_scrap fuel env base_url link db_name (depth - 1)"
  let ?s0 = "emit [Call current_url depth, Explored current_url depth]
      (s\<lparr>visited := insert current_url (visited s)\<rparr>)"
  have "fst (urlopen env q (world ?s0)) = HTTPError code \<or> fst (urlopen env q (world ?s0)) = URLError"
    using assms(2) by simp
  from get_page_fetch_failure [OF assms(1) this] obtain evs w where
    p: "get_page env current_url ?s0 = (Inr [], emit evs (?s0\<lparr>world := w\<rparr>))" by blast
  let ?s1 = "emit evs (?s0\<lparr>world := w\<rparr>)"
  have l: "get_links_from_page env current_url base_url ?s0 = (Inr [], ?s1)"
    using p by (simp add: get_links_from_page_def)
  obtain r2 s2 where sv: "save_to_db env db_name [] ?s1 = (r2, s2)"
    by (cases "save_to_db env db_name [] ?s1")
  have "\<exists>s'. except_Exception current_url depth
      (try_block ?call env base_url current_url db_name ?s0) = Some (None, s')"
  proof (cases r2)
    case None
    with l sv show ?thesis by (simp add: try_block_def except_Exception_def)
  next
    case (Some e)
    with sv have "e = SqliteError"
      by (auto simp: save_to_db_def split: prod.splits bool.splits)
    moreover have "\<not> print_raises [current_url]"
      using quote_encodable [OF assms(1)] by (simp add: print_raises_def)
    ultimately show ?thesis
      using Some l sv by (simp add: try_block_def except_Exception_def)
  qed
  then obtain s' where
    r: "recursive_url_scrap (Suc fuel) env base_url current_url db_name depth s = Some (None, s')"
    using g by auto
  have "for_each (\<lambda>link. recursive_url_scrap (Suc fuel) env base_url link db_name depth)
                (current_url # links) s
              = for_each (\<lambda>link. recursive_url_scrap (Suc fuel) env base_url link db_name depth)
                  links s'"
    by (simp only: for_each.simps r) simp
  with r show "\<exists>s'. recursive_url_scrap (Suc fuel) env base_url current_url db_name depth s
                = Some (None, s') \<and>
              for_each (\<lambda>link. recursive_url_scrap (Suc fuel) env base_url link db_name depth)
                (current_url # links) s
              = for_each (\<lambda>link. recursive_url_scrap (Suc fuel) env base_url link db_name depth)
                  links s'"
    by blast
qed

theorem fetch_failure_is_not_fatal_witness:
  "fst (get_page offline (py ''u'') start) = Inr [] \<and>
   fst (get_links_from_page offline (py ''u'') (py ''h'') start) = Inr [] \<and>
   (\<exists>s'. recursive_url_scrap (Suc 0) offline (py ''h'') (py ''u'') (py ''db'') 1 start
            = Some (None, s') \<and>
          for_each (\<lambda>link. recursive_url_scrap (Suc 0) offline (py ''h'') link (py ''db'') 1)
            [py ''u'', py ''v''] start
          = for_each (\<lambda>link. recursive_url_scrap (Suc 0) offline (py ''h'') link (py ''db'') 1)
              [py ''v''] s')"
proof -
  have a: "fst (urlopen offline (py ''u'') (world start)) = HTTPError 404 \<or>
      fst (urlopen offline (py ''u'') (world start)) = URLError"
    by (simp add: offline_def)
  have g: "(1::int) \<noteq> 0 \<and> py ''u'' \<notin> visited start"
    by (simp add: start_def)
  from fetch_failure_is_not_fatal [OF quote_u a, of "py ''h''" 1 0 "py ''db''" "[py ''v'']"] g
  show ?thesis by blast
qed


section \<open>Saving comes before the recursion\<close>

lemma for_each_scrap_run_within:
  assumes "0 \<le> d"
    and "for_each (\<lambda>link. recursive_url_scrap fuel env base link db_name d) links s = Some (x, s')"
  shows "run_within d s s'"
proof -
  have "\<And>link t y t'. recursive_url_scrap fuel env base link db_name d t = Some (y, t')
      \<Longrightarrow> run_within d t t'"
    using scrap_frame_ok [OF assms(1)] assms(1) by (blast intro: frame_ok_run_within)
  then show ?thesis using assms(2) by (rule for_each_run_within)
qed

text \<open>
  C7.  In a frame that goes past the guard and gets the links of its page.
  When the links are saved (\<open>sqlite3\<close> does not fail and every link can be
  encoded): the whole set is in the table once \<open>save_to_db\<close> has returned, the
  loop over the links starts from that state, so that whatever the frame did
  before the \<open>Saved\<close> event contains no recursive call, and the links are still
  stored when the frame is left, whether the recursion returned, had its
  exception caught, or raised.  When \<open>save_to_db\<close> raises instead, the frame is
  left without any recursive call.
\<close>

theorem links_saved_before_recursion:
  assumes "depth \<noteq> 0" and "current_url \<notin> visited s" and "0 \<le> depth" and "nat depth \<le> fuel"
    and "get_links_from_page env current_url base_url
           (emit [Call current_url depth, Explored current_url depth]
              (s\<lparr>visited := insert current_url (visited s)\<rparr>)) = (Inr links, s1)"
  shows "(sqlite_fails env (world s1) = (False, w) \<and> list_all encodable links \<longrightarrow>
     (\<exists>s2 x s' pre post.
       save_to_db env db_name links s1 = (None, s2) \<and>
       set links \<subseteq> stored s2 \<and>
       recursive_url_scrap (Suc fuel) env base_url current_url db_name depth s
         = except_Exception current_url depth
             (for_each (\<lambda>link. recursive_url_scrap fuel env base_url link db_name (depth - 1))
                links s2) \<and>
       recursive_url_scrap (Suc fuel) env base_url current_url db_name depth s = Some (x, s') \<and>
       set links \<subseteq> stored s' \<and>
       trace s' = trace s @ Call current_url depth # Explored current_url depth # pre
                    @ Saved links # post \<and>
       call_depths pre = [])) \<and>
     (\<forall>e s2. save_to_db env db_name links s1 = (Some e, s2) \<longrightarrow>
       (\<exists>x s' evs.
          recursive_url_scrap (Suc fuel) env base_url current_url db_name depth s = Some (x, s') \<and>
          trace s' = trace s @ Call current_url depth # Explored current_url depth # evs \<and>
          call_depths evs = []))"
proof (intro conjI allI impI)
  let ?call = "\<lambda>link. recursive_url_scrap fuel env base_url link db_name (depth - 1)"
  let ?s0 = "emit [Call current_url depth, Explored current_url depth]
      (s\<lparr>visited := insert current_url (visited s)\<rparr>)"
  from get_links_from_page_quiet [OF assms(5)] obtain pre where
    pre: "trace s1 = trace ?s0 @ pre" "call_depths pre = []"
    unfolding quiet_def by blast
  {
    assume ok: "sqlite_fails env (world s1) = (False, w) \<and> list_all encodable links"
    let ?s2 = "emit [Saved links]
        (s1\<lparr>world := w, db := Some (insert_all (create_table_if_not_exists (db s1)) links)\<rparr>)"
    have sv: "save_to_db env db_name links s1 = (None, ?s2)"
      using ok by (simp add: save_to_db_ok)
    have st: "set links \<subseteq> stored ?s2"
      by (simp only: stored_after_save) simp
    have eq: "recursive_url_scrap (Suc fuel) env base_url current_url db_name depth s
         = except_Exception current_url depth (for_each ?call links ?s2)"
      using assms(1,2,5) sv by (simp add: try_block_def)
    have pos: "0 \<le> depth - 1" "nat (depth - 1) < fuel"
      using assms(1,3,4) by auto
    have "\<And>link t. \<exists>y t'. ?call link t = Some (y, t')"
      using pos by (rule scrap_returns)
    then obtain y s3 where loop: "for_each ?call links ?s2 = Some (y, s3)"
      using for_each_returns [of ?call links ?s2] by blast
    have rw: "run_within (depth - 1) ?s2 s3"
      using pos(1) loop by (rule for_each_scrap_run_within)
    then obtain evs where g: "stored ?s2 \<subseteq> stored s3" "trace s3 = trace ?s2 @ evs"
      unfolding run_within_def by blast
    obtain x s' where fin: "except_Exception current_url depth (for_each ?call links ?s2) = Some (x, s')"
      using except_Exception_returns [of "for_each ?call links ?s2"] loop by blast
    have "s' = s3 \<or> (\<exists>ev. s' = emit [ev] s3)"
      using fin loop by (auto simp: except_Exception_def split: option.splits if_splits)
    then have "stored s' = stored s3 \<and> (\<exists>post. trace s' = trace ?s2 @ post)"
      using g(2) by auto
    then obtain post where h: "stored s' = stored s3" "trace s' = trace ?s2 @ post"
      by blast
    have t: "trace s' = trace s @ Call current_url depth # Explored current_url depth # pre
                    @ Saved links # post"
      using h(2) pre(1) by simp
    have k: "set links \<subseteq> stored s'"
      using st g(1) h(1) by blast
    from sv st eq fin k t pre(2)
    show "\<exists>s2 x s' pre post.
       save_to_db env db_name links s1 = (None, s2) \<and>
       set links \<subseteq> stored s2 \<and>
       recursive_url_scrap (Suc fuel) env base_url current_url db_name depth s
         = except_Exception current_url depth
             (for_each (\<lambda>link. recursive_url_scrap fuel env base_url link db_name (depth - 1))
                links s2) \<and>
       recursive_url_scrap (Suc fuel) env base_url current_url db_name depth s = Some (x, s') \<and>
       set links \<subseteq> stored s' \<and>
       trace s' = trace s @ Call current_url depth # Explored current_url depth # pre
                    @ Saved links # post \<and>
       call_depths pre = []"
      by (metis (no_types, lifting))
  }
  fix e s2
  assume sv: "save_to_db env db_name links s1 = (Some e, s2)"
  have tr: "trace s2 = trace s1"
    using save_to_db_raises [OF sv] by simp
  have eq: "recursive_url_scrap (Suc fuel) env base_url current_url db_name depth s
       = except_Exception current_url depth (Some (Some e, s2))"
    using assms(1,2,5) sv by (simp add: try_block_def)
  obtain x s' where fin: "except_Exception current_url depth (Some (Some e, s2)) = Some (x, s')"
    using except_Exception_returns [of "Some (Some e, s2)"] by blast
  have "s' = s2 \<or> s' = emit [Caught current_url depth e] s2
      \<or> s' = emit [Print_failed current_url depth e] s2"
    using fin by (auto simp: except_Exception_def split: if_splits)
  then have "\<exists>evs. trace s' = trace s @ Call current_url depth # Explored current_url depth # evs
      \<and> call_depths evs = []"
    using tr pre by auto
  with eq fin
  show "\<exists>x s' evs.
          recursive_url_scrap (Suc fuel) env base_url current_url db_name depth s = Some (x, s') \<and>
          trace s' = trace s @ Call current_url depth # Explored current_url depth # evs \<and>
          call_depths evs = []"
    by auto
qed

lemma feed_one_page:
  "feed [(py ''a'', [(py ''href'', Some (py ''/wiki/A''))]),
         (py ''a'', [(py ''href'', Some (py ''/wiki/B''))])] []
     = (None, [py ''/wiki/A'', py ''/wiki/B''])"
  by (simp add: handle_starttag_def startswith_def set_add_def py_def ch_def)

lemma join_A:
  "resolve_link (\<lambda>loc. True) (\<lambda>bs. [65533]) (py ''http://h'') (py ''/wiki/A'')
     = Inr (py ''http://h/wiki/A'')"
  by code_simp

lemma join_B:
  "resolve_link (\<lambda>loc. True) (\<lambda>bs. [65533]) (py ''http://h'') (py ''/wiki/B'')
     = Inr (py ''http://h/wiki/B'')"
  by code_simp

lemma one_page_links:
  "get_links_from_page one_page (py ''u'') (py ''http://h'') s
     = (Inr [py ''http://h/wiki/A'', py ''http://h/wiki/B''],
        emit [Fetched (py ''u'')] (s\<lparr>world := ()\<rparr>))"
proof -
  have ne: "py ''page'' \<noteq> []" by (simp add: py_def)
  have ab: "py ''http://h/wiki/B'' \<noteq> py ''http://h/wiki/A''"
    by (simp add: py_def ch_def)
  have gp: "get_page one_page (py ''u'') s
      = (Inr (py ''page''), emit [Fetched (py ''u'')] (s\<lparr>world := ()\<rparr>))"
    by (simp add: get_page_def quote_u one_page_def offline_def)
  have st: "starttags one_page (py ''page'')
      = [(py ''a'', [(py ''href'', Some (py ''/wiki/A''))]),
         (py ''a'', [(py ''href'', Some (py ''/wiki/B''))])]"
    by (simp add: one_page_def offline_def)
  have rl: "resolve_links one_page (py ''http://h'') [py ''/wiki/A'', py ''/wiki/B''] []
      = Inr [py ''http://h/wiki/A'', py ''http://h/wiki/B'']"
    using ab by (simp add: one_page_def offline_def join_A join_B set_add_def)
  show ?thesis
    using ne by (simp add: get_links_from_page_def gp st feed_one_page rl
        del: feed.simps resolve_links.simps)
qed

theorem links_saved_before_recursion_witness:
  "\<exists>x s' pre post.
     recursive_url_scrap (Suc (Suc 0)) one_page (py ''http://h'') (py ''u'') (py ''db'') 1 start
       = Some (x, s') \<and>
     set [py ''http://h/wiki/A'', py ''http://h/wiki/B''] \<subseteq> stored s' \<and>
     trace s' = Call (py ''u'') 1 # Explored (py ''u'') 1 # pre
        @ Saved [py ''http://h/wiki/A'', py ''http://h/wiki/B''] # post \<and>
     call_depths pre = []"
proof -
  let ?s0 = "emit [Call (py ''u'') 1, Explored (py ''u'') 1]
      (start\<lparr>visited := insert (py ''u'') (visited start)\<rparr>)"
  have a: "(1::int) \<noteq> 0" by simp
  have b: "py ''u'' \<notin> visited start" by (simp add: start_def)
  have c: "(0::int) \<le> 1" by simp
  have d: "nat 1 \<le> Suc 0" by simp
  have e: "get_links_from_page one_page (py ''u'') (py ''http://h'') ?s0
      = (Inr [py ''http://h/wiki/A'', py ''http://h/wiki/B''],
         emit [Fetched (py ''u'')] (?s0\<lparr>world := ()\<rparr>))"
    by (rule one_page_links)
  have f: "sqlite_fails one_page (world (emit [Fetched (py ''u'')] (?s0\<lparr>world := ()\<rparr>)))
      = (False, ()) \<and> list_all encodable [py ''http://h/wiki/A'', py ''http://h/wiki/B'']"
    by (simp add: one_page_def offline_def encodable_def py_def ch_def utf8_encode_char_def)
  from links_saved_before_recursion [OF a b c d e, of "()" "py ''db''"] f
  obtain x s' pre post where
    "recursive_url_scrap (Suc (Suc 0)) one_page (py ''http://h'') (py ''u'') (py ''db'') 1 start
       = Some (x, s')"
    "set [py ''http://h/wiki/A'', py ''http://h/wiki/B''] \<subseteq> stored s'"
    "trace s' = trace start @ Call (py ''u'') 1 # Explored (py ''u'') 1 # pre
        @ Saved [py ''http://h/wiki/A'', py ''http://h/wiki/B''] # post"
    "call_depths pre = []"
    by blast
  moreover have "trace start = []" by (simp add: start_def)
  ultimately show ?thesis by (metis append_Nil)
qed


section \<open>The table at the start of a run\<close>

lemma drop_table_ok:
  "sqlite_fails env (world s) = (False, w)
     \<Longrightarrow> drop_table env s = (None, emit [Dropped] (s\<lparr>world := w, db := None\<rparr>))"
  by (simp add: drop_table_def)

lemma main_try_valid:
  assumes "2 \<le> length argv" and "re_match_seed (argv ! 1)"
    and "urlparse (netloc_ok env) (argv ! 1) [] = Inr p"
    and "sqlite_fails env (world s) = (False, w)"
  shows "main_try fuel env argv s =
     recursive_url_scrap fuel env (scheme p @ py ''://'' @ netloc p) (argv ! 1)
       (py ''url_storage.db'') 6 ((emit [Dropped] (s\<lparr>world := w, db := None\<rparr>))\<lparr>visited := {}\<rparr>)"
proof -
  show ?thesis
    using assms by (simp add: main_try_def drop_table_ok Let_def)
qed

text \<open>
  C9, as the code has it.  When the seed matches the pattern and parses, and
  \<open>sqlite3\<close> does not fail, \<open>main\<close> is the traversal of depth 6 started from a file
  with no table \<open>Urls\<close> at all: the table has been dropped, not recreated, before
  anything is fetched.  What the file held before has no part in the run,
  which comes to the same whatever it was, and with 7 frames the run comes to
  an end.  The table is created again only by \<open>save_to_db\<close>, with the URLs of its
  first call in it (or empty, when one of them cannot be encoded).
\<close>

theorem table_dropped_before_crawl:
  assumes "2 \<le> length argv" and "re_match_seed (argv ! 1)"
    and "urlparse (netloc_ok env) (argv ! 1) [] = Inr p"
    and "sqlite_fails env (world s) = (False, w)"
  shows "main fuel env argv s =
       (case recursive_url_scrap fuel env (scheme p @ py ''://'' @ netloc p) (argv ! 1)
               (py ''url_storage.db'') 6
               ((emit [Dropped] (s\<lparr>world := w, db := None\<rparr>))\<lparr>visited := {}\<rparr>) of
          None \<Rightarrow> None
        | Some (r, s') \<Rightarrow> Some (r, emit [Shutdown] s')) \<and>
     main fuel env argv (s\<lparr>db := d\<rparr>) = main fuel env argv s \<and>
     (7 \<le> fuel \<longrightarrow> (\<exists>r s'. main fuel env argv s = Some (r, s'))) \<and>
     (\<forall>urls t w'. sqlite_fails env (world t) = (False, w') \<and> db t = None \<longrightarrow>
        db (snd (save_to_db env (py ''url_storage.db'') urls t))
          = Some (if list_all encodable urls then insert_all [] urls else []))"
proof (intro conjI allI impI)
  let ?run = "\<lambda>t. recursive_url_scrap fuel env (scheme p @ py ''://'' @ netloc p) (argv ! 1)
       (py ''url_storage.db'') 6 ((emit [Dropped] (t\<lparr>world := w, db := None\<rparr>))\<lparr>visited := {}\<rparr>)"
  have m: "main_try fuel env argv s = ?run s"
    using assms by (rule main_try_valid)
  then show eq: "main fuel env argv s =
       (case ?run s of None \<Rightarrow> None | Some (r, s') \<Rightarrow> Some (r, emit [Shutdown] s'))"
    by (simp add: main_def)
  have "sqlite_fails env (world (s\<lparr>db := d\<rparr>)) = (False, w)"
    using assms(4) by simp
  with assms(1-3) have "main_try fuel env argv (s\<lparr>db := d\<rparr>) = ?run (s\<lparr>db := d\<rparr>)"
    by (rule main_try_valid)
  moreover have "?run (s\<lparr>db := d\<rparr>) = ?run s" by simp
  ultimately show "main fuel env argv (s\<lparr>db := d\<rparr>) = main fuel env argv s"
    using m by (simp add: main_def)
  {
    assume "7 \<le> fuel"
    then have "nat 6 < fuel" by simp
    with scrap_returns [of 6 fuel] have "\<exists>r s'. ?run s = Some (r, s')" by simp
    then show "\<exists>r s'. main fuel env argv s = Some (r, s')"
      using eq by auto
  }
next
  fix urls and t :: "'a state" and w'
  assume "sqlite_fails env (world t) = (False, w') \<and> db t = None"
  then show "db (snd (save_to_db env (py ''url_storage.db'') urls t))
          = Some (if list_all encodable urls then insert_all [] urls else [])"
    by (simp add: save_to_db_def execute_inserts_eq create_table_if_not_exists_def)
qed

lemma seed_matches: "re_match_seed (py ''http://ab'')"
  by (simp add: re_match_seed_def startswith_def py_def ch_def unicode_space_def at_end_def)

lemma seed_parses:
  "urlparse (\<lambda>loc. True) (py ''http://ab'') []
     = Inr \<lparr>scheme = py ''http'', netloc = py ''ab'', path = [], params = [], query = [],
            fragment = []\<rparr>"
  by code_simp

lemma quote_seed: "quote (py ''http://ab'') (py '':/?&='') = Inr (py ''http://ab'')"
  by code_simp

lemma not_print_raises_seed: "\<not> print_raises [py ''http://ab'']"
  using quote_encodable [OF quote_seed] by (simp add: print_raises_def)

lemma scrap_seven:
  "recursive_url_scrap 7 env base url db_name depth s =
     (if depth = 0 \<or> url \<in> visited s then Some (None, emit [Call url depth] s)
      else except_Exception url depth
             (try_block (\<lambda>link. recursive_url_scrap 6 env base link db_name (depth - 1))
                env base url db_name
                (emit [Call url depth, Explored url depth]
                   (s\<lparr>visited := insert url (visited s)\<rparr>))))"
proof -
  have e: "Suc 6 = 7" by simp
  show ?thesis
    using recursive_url_scrap.simps(2) [of 6 env base url db_name depth s] unfolding e .
qed

text \<open>
  The table is not there while the seed page is fetched, and when that page is
  not UTF-8 the run ends, with status 0, on a file without the table.
\<close>

theorem no_table_after_garbled_seed:
  "map_option (\<lambda>(r, s'). (exit_status r, db s', trace s'))
     (main 7 garbled [py ''main.py'', py ''http://ab''] start)
   = Some (0, None,
       [Dropped, Call (py ''http://ab'') 6, Explored (py ''http://ab'') 6,
        Fetched (py ''http://ab''), Caught (py ''http://ab'') 6 UnicodeDecodeError, Shutdown])"
proof -
  have "netloc_ok garbled = (\<lambda>loc. True)"
    by (simp add: garbled_def offline_def)
  then have p: "urlparse (netloc_ok garbled) (py ''http://ab'') []
     = Inr \<lparr>scheme = py ''http'', netloc = py ''ab'', path = [], params = [], query = [],
            fragment = []\<rparr>"
    by (simp only: seed_parses)
  have t: "try_block call garbled base (py ''http://ab'') db_name s
     = Some (Some UnicodeDecodeError, emit [Fetched (py ''http://ab'')] s)" for call base db_name s
    by (simp add: quote_seed try_block_def get_links_from_page_def get_page_def garbled_def
        offline_def)
  have d: "drop_table garbled start = (None, emit [Dropped] (start\<lparr>db := None\<rparr>))"
    by (simp add: drop_table_def garbled_def offline_def)
  have ts: "trace start = []"
    by (simp add: start_def)
  show ?thesis
    by (simp add: main_def main_try_def seed_matches p d t ts scrap_seven except_Exception_def
        not_print_raises_seed Let_def)
qed

theorem table_dropped_before_crawl_witness:
  "map_option (\<lambda>(r, s'). (exit_status r, db s', trace s'))
     (main 7 offline [py ''main.py'', py ''http://ab''] start)
   = Some (0, Some [],
       [Dropped, Call (py ''http://ab'') 6, Explored (py ''http://ab'') 6,
        Fetched (py ''http://ab''), Printed_url_error (py ''http://ab''), Saved [], Shutdown])"
proof -
  let ?argv = "[py ''main.py'', py ''http://ab'']"
  have a: "2 \<le> length ?argv" by simp
  have b: "re_match_seed (?argv ! 1)" by (simp add: seed_matches)
  have "netloc_ok offline = (\<lambda>loc. True)"
    by (simp add: offline_def)
  then have c: "urlparse (netloc_ok offline) (?argv ! 1) []
     = Inr \<lparr>scheme = py ''http'', netloc = py ''ab'', path = [], params = [], query = [],
            fragment = []\<rparr>"
    by (simp add: seed_parses)
  have d: "sqlite_fails offline (world start) = (False, ())"
    by (simp add: offline_def)
  note inst = table_dropped_before_crawl [OF a b c d, of 7 None]
  have run: "recursive_url_scrap 7 offline (py ''http'' @ py ''://'' @ py ''ab'') (py ''http://ab'')
       (py ''url_storage.db'') 6 ((emit [Dropped] (start\<lparr>world := (), db := None\<rparr>))\<lparr>visited := {}\<rparr>)
     = Some (None, \<lparr>world = (), db = Some [], visited = {py ''http://ab''},
          trace = [Dropped, Call (py ''http://ab'') 6, Explored (py ''http://ab'') 6,
                   Fetched (py ''http://ab''), Printed_url_error (py ''http://ab''), Saved []]\<rparr>)"
    by (simp add: scrap_seven quote_seed try_block_def get_links_from_page_def get_page_def
        save_to_db_def create_table_if_not_exists_def offline_def start_def
        except_Exception_def emit_def)
  from inst have "main 7 offline ?argv start =
       (case recursive_url_scrap 7 offline (py ''http'' @ py ''://'' @ py ''ab'') (py ''http://ab'')
               (py ''url_storage.db'') 6
               ((emit [Dropped] (start\<lparr>world := (), db := None\<rparr>))\<lparr>visited := {}\<rparr>) of
          None \<Rightarrow> None
        | Some (r, s') \<Rightarrow> Some (r, emit [Shutdown] s'))"
    by simp
  then show ?thesis
    by (simp only: run) (simp add: emit_def)
qed



section \<open>Article links stay on the origin\<close>

lemma host_filter:
  "list_all host_char host \<Longrightarrow>
   filter (\<lambda>c. c \<noteq> 9 \<and> c \<noteq> 13 \<and> c \<noteq> 10) (host @ r)
     = host @ filter (\<lambda>c. c \<noteq> 9 \<and> c \<noteq> 13 \<and> c \<noteq> 10) r"
  by (induction host) (auto simp: host_char_def)

lemma host_take:
  "list_all host_char host \<Longrightarrow>
   takeWhile (\<lambda>c. \<not> netloc_delim c) (host @ r) = host @ takeWhile (\<lambda>c. \<not> netloc_delim c) r"
  by (induction host) (auto simp: host_char_def)

lemma host_drop:
  "list_all host_char host \<Longrightarrow>
   dropWhile (\<lambda>c. \<not> netloc_delim c) (host @ r) = dropWhile (\<lambda>c. \<not> netloc_delim c) r"
  by (induction host) (auto simp: host_char_def)

lemma host_filter0:
  "list_all host_char host \<Longrightarrow> filter (\<lambda>c. c \<noteq> 9 \<and> c \<noteq> 13 \<and> c \<noteq> 10) host = host"
  using host_filter [of host "[]"] by simp

lemma host_take0:
  "list_all host_char host \<Longrightarrow> takeWhile (\<lambda>c. \<not> netloc_delim c) host = host"
  using host_take [of host "[]"] by simp

lemma host_drop0:
  "list_all host_char host \<Longrightarrow> dropWhile (\<lambda>c. \<not> netloc_delim c) host = []"
  using host_drop [of host "[]"] by simp

lemma delim_slash: "netloc_delim 47"
  by (simp add: netloc_delim_def ch_def)

lemmas urlsplit_eval = urlsplit_def Let_def py_def ch_def lstrip_c0_def strip_c0_def
  c0_control_or_space_def remove_unsafe_def before_def after_def ascii_alpha_def
  scheme_chars_def ascii_digit_def ascii_lower_def splitnetloc_def
  host_filter host_take host_drop host_filter0 host_take0 host_drop0 delim_slash

lemma urlsplit_http:
  assumes "list_all host_char host" and "\<not> netloc_raises ok host"
  shows "urlsplit ok (py ''http'' @ py ''://'' @ host) [] = Inr (py ''http'', host, [], [], [])"
  using assms by (simp add: urlsplit_eval)

lemma urlsplit_https:
  assumes "list_all host_char host" and "\<not> netloc_raises ok host"
  shows "urlsplit ok (py ''https'' @ py ''://'' @ host) [] = Inr (py ''https'', host, [], [], [])"
  using assms by (simp add: urlsplit_eval)

lemma urlsplit_under_http:
  assumes "list_all host_char host" and "\<not> netloc_raises ok host"
  shows "(case urlsplit ok (py ''http'' @ py ''://'' @ host @ py ''/'' @ rest) [] of
            Inl e \<Rightarrow> False
          | Inr (usch, uloc, urest) \<Rightarrow> usch = py ''http'' \<and> uloc = host)"
  using assms by (simp add: urlsplit_eval)

lemma urlsplit_under_https:
  assumes "list_all host_char host" and "\<not> netloc_raises ok host"
  shows "(case urlsplit ok (py ''https'' @ py ''://'' @ host @ py ''/'' @ rest) [] of
            Inl e \<Rightarrow> False
          | Inr (usch, uloc, urest) \<Rightarrow> usch = py ''https'' \<and> uloc = host)"
  using assms by (simp add: urlsplit_eval)

lemma http_nonempty: "py ''http'' \<noteq> []" "py ''https'' \<noteq> []"
  by (simp_all add: py_def)

lemma same_origin_under:
  assumes "sch = py ''http'' \<or> sch = py ''https''" and "plain_host ok host"
  shows "same_origin ok (origin sch host) (origin sch host @ py ''/'' @ rest)"
proof -
  from assms(2) have h: "list_all host_char host" "\<not> netloc_raises ok host" "host \<noteq> []"
    by (simp_all add: plain_host_def)
  from assms(1) show ?thesis
  proof
    assume s: "sch = py ''http''"
    from urlsplit_under_http [OF h(1,2), of rest] urlsplit_http [OF h(1,2)] h(3) http_nonempty
    show ?thesis
      by (simp add: same_origin_def origin_def s split: sum.splits prod.splits)
  next
    assume s: "sch = py ''https''"
    from urlsplit_under_https [OF h(1,2), of rest] urlsplit_https [OF h(1,2)] h(3) http_nonempty
    show ?thesis
      by (simp add: same_origin_def origin_def s split: sum.splits prod.splits)
  qed
qed

lemma urlparse_origin:
  assumes "sch = py ''http'' \<or> sch = py ''https''" and "plain_host ok host"
  shows "urlparse ok (origin sch host) []
     = Inr \<lparr>scheme = sch, netloc = host, path = [], params = [], query = [], fragment = []\<rparr>"
proof -
  from assms(2) have h: "list_all host_char host" "\<not> netloc_raises ok host"
    by (simp_all add: plain_host_def)
  from assms(1) show ?thesis
  proof
    assume s: "sch = py ''http''"
    show ?thesis
      by (simp add: urlparse_def origin_def s urlsplit_http [OF h])
  next
    assume s: "sch = py ''https''"
    show ?thesis
      by (simp add: urlparse_def origin_def s urlsplit_https [OF h])
  qed
qed

text \<open>A reference that starts with \<open>/wiki\<close>, split and parsed with a default scheme.\<close>

lemma netloc_raises_empty: "\<not> netloc_raises ok []"
  by (simp add: netloc_raises_def)

lemma urlsplit_wiki:
  assumes "sch = py ''http'' \<or> sch = py ''https''"
  shows "(case urlsplit ok (py ''/wiki'' @ r) sch of
            Inl e \<Rightarrow> False
          | Inr (usch, uloc, upath, urest) \<Rightarrow>
              usch = sch \<and> uloc = [] \<and> upath \<noteq> [] \<and> hd upath = 47)"
  using assms
proof
  assume s: "sch = py ''http''"
  show ?thesis
    by (simp add: s urlsplit_def Let_def py_def ch_def lstrip_c0_def strip_c0_def
        c0_control_or_space_def remove_unsafe_def before_def after_def ascii_alpha_def
        netloc_raises_empty)
next
  assume s: "sch = py ''https''"
  show ?thesis
    by (simp add: s urlsplit_def Let_def py_def ch_def lstrip_c0_def strip_c0_def
        c0_control_or_space_def remove_unsafe_def before_def after_def ascii_alpha_def
        netloc_raises_empty)
qed

lemma splitparams_nonempty:
  assumes "p \<noteq> []" and "hd p = 47"
  shows "fst (splitparams p) \<noteq> []"
proof -
  from assms have in_p: "47 \<in> set p" by (cases p) auto
  then have "\<exists>x \<in> set (rev p). \<not> x \<noteq> 47" by simp
  then have "dropWhile (\<lambda>c. c \<noteq> 47) (rev p) \<noteq> []"
    by (simp only: dropWhile_eq_Nil_conv) blast
  then have "rev (dropWhile (\<lambda>c. c \<noteq> 47) (rev p)) \<noteq> []" by simp
  with in_p assms(1) show ?thesis
    by (simp add: splitparams_def Let_def ch_def)
qed

lemma urlparse_wiki:
  assumes "sch = py ''http'' \<or> sch = py ''https''"
  shows "\<exists>up. urlparse ok (py ''/wiki'' @ r) sch = Inr up \<and> scheme up = sch \<and>
            netloc up = [] \<and> path up \<noteq> []"
proof -
  from urlsplit_wiki [OF assms, of ok r] obtain p q f where
    sp: "urlsplit ok (py ''/wiki'' @ r) sch = Inr (sch, [], p, q, f)" and p: "p \<noteq> []" "hd p = 47"
    by (auto split: sum.splits prod.splits)
  from splitparams_nonempty [OF p] p(1) show ?thesis
    by (simp add: urlparse_def sp Let_def)
qed

lemma join_path_nonempty: "join_path bpath upath \<noteq> []"
  by (simp add: join_path_def Let_def py_def)

lemma urlunsplit_netloc:
  assumes "sch \<noteq> []" and "loc \<noteq> []" and "url0 \<noteq> []"
  shows "\<exists>rest. urlunsplit sch loc url0 qry frag = sch @ py ''://'' @ loc @ py ''/'' @ rest"
proof (cases url0)
  case Nil
  with assms(3) show ?thesis by simp
next
  case (Cons c cs)
  show ?thesis
  proof (cases "c = 47")
    case True
    with Cons assms(1,2) show ?thesis
      by (simp add: urlunsplit_def Let_def py_def ch_def)
  next
    case False
    with Cons assms(1,2) show ?thesis
      by (simp add: urlunsplit_def Let_def py_def ch_def)
  qed
qed

lemma urlunparse_origin:
  assumes "sch \<noteq> []" and "host \<noteq> []" and "path p \<noteq> []"
  shows "\<exists>rest. urlunparse (p\<lparr>scheme := sch, netloc := host\<rparr>) = origin sch host @ py ''/'' @ rest"
proof -
  let ?url0 = "if params p \<noteq> [] then path p @ py '';'' @ params p else path p"
  have "?url0 \<noteq> []" using assms(3) by simp
  from urlunsplit_netloc [OF assms(1,2) this, of "query p" "fragment p"]
  show ?thesis by (cases "params p = []") (simp_all add: urlunparse_def origin_def)
qed

lemma scheme_classes:
  "py ''http'' \<in> set uses_relative" "py ''https'' \<in> set uses_relative"
  "py ''http'' \<in> set uses_netloc" "py ''https'' \<in> set uses_netloc"
  by (simp_all add: uses_relative_def uses_netloc_def)

lemma urljoin_wiki:
  assumes "sch = py ''http'' \<or> sch = py ''https''" and "plain_host ok host"
  shows "\<exists>rest. urljoin ok (origin sch host) (py ''/wiki'' @ r)
           = Inr (origin sch host @ py ''/'' @ rest)"
proof -
  from assms(2) have host: "host \<noteq> []" by (simp add: plain_host_def)
  from assms(1) have sch: "sch \<noteq> []" "sch \<in> set uses_relative" "sch \<in> set uses_netloc"
    using http_nonempty scheme_classes by auto
  from urlparse_wiki [OF assms(1), of ok r] obtain up where
    up: "urlparse ok (py ''/wiki'' @ r) sch = Inr up" "scheme up = sch" "netloc up = []"
        "path up \<noteq> []"
    by blast
  let ?b = "\<lparr>scheme = sch, netloc = host, path = [], params = [], query = [], fragment = []\<rparr>"
  let ?p = "up\<lparr>path := join_path [] (path up)\<rparr>"
  have b: "urlparse ok (origin sch host) [] = Inr ?b"
    using assms by (rule urlparse_origin)
  have ne: "origin sch host \<noteq> []" "py ''/wiki'' \<noteq> []"
    using sch(1) by (simp_all add: origin_def py_def)
  have "urljoin ok (origin sch host) (py ''/wiki'' @ r)
      = Inr (urlunparse (up\<lparr>netloc := host, path := join_path [] (path up)\<rparr>))"
    using ne up sch by (simp add: urljoin_def b Let_def)
  also have "up\<lparr>netloc := host, path := join_path [] (path up)\<rparr> = ?p\<lparr>scheme := sch, netloc := host\<rparr>"
    using up(2) by simp
  finally have j: "urljoin ok (origin sch host) (py ''/wiki'' @ r)
      = Inr (urlunparse (?p\<lparr>scheme := sch, netloc := host\<rparr>))" .
  have "path ?p \<noteq> []" by (simp add: join_path_nonempty)
  from urlunparse_origin [OF sch(1) host this] j show ?thesis by auto
qed

text \<open>Unquoting leaves the leading \<open>/wiki\<close> where it is.\<close>

lemma unquote_to_bytes_plain: "c \<noteq> 37 \<Longrightarrow> unquote_to_bytes (c # xs) = c # unquote_to_bytes xs"
proof (cases xs)
  case Nil
  then show "unquote_to_bytes (c # xs) = c # unquote_to_bytes xs" by simp
next
  case (Cons a as)
  assume "c \<noteq> 37"
  then show "unquote_to_bytes (c # xs) = c # unquote_to_bytes xs"
    using Cons by (cases as) (simp_all add: ch_def)
qed

lemma unquote_ascii_wiki: "\<exists>x. unquote_ascii dec (py ''/wiki'' @ run) = py ''/wiki'' @ x"
  by (simp add: unquote_ascii_def py_def ch_def unquote_to_bytes_plain decode_run_def)

lemma unquote_parts_wiki:
  "\<exists>x. unquote_parts dec (py ''/wiki'' @ run) cs = py ''/wiki'' @ x"
proof (induction cs arbitrary: run)
  case Nil
  show ?case using unquote_ascii_wiki [of dec run] by simp
next
  case (Cons c cs)
  show ?case
  proof (cases "c < 128")
    case True
    with Cons.IH [of "run @ [c]"] show ?thesis by simp
  next
    case False
    from unquote_ascii_wiki [of dec run] obtain x where
      "unquote_ascii dec (py ''/wiki'' @ run) = py ''/wiki'' @ x" by blast
    with False show ?thesis by simp
  qed
qed

lemma unquote_wiki:
  assumes "startswith link (py ''/wiki'')"
  shows "\<exists>r. unquote dec link = py ''/wiki'' @ r"
proof -
  from assms obtain t where l: "link = py ''/wiki'' @ t"
    by (auto simp: startswith_def prefix_def)
  show ?thesis
  proof (cases "ch CHR ''%'' \<in> set link")
    case False
    with l show ?thesis by (simp add: unquote_def)
  next
    case True
    have "unquote_parts dec [] (py ''/wiki'' @ t) = unquote_parts dec (py ''/wiki'' @ []) t"
      by (simp add: py_def ch_def)
    with unquote_parts_wiki [of dec "[]" t] True l show ?thesis
      by (simp add: unquote_def)
  qed
qed

lemma resolve_link_wiki:
  assumes "sch = py ''http'' \<or> sch = py ''https''" and "plain_host ok host"
    and "startswith link (py ''/wiki'')"
  shows "\<exists>rest. resolve_link ok dec (origin sch host) link
           = Inr (origin sch host @ py ''/'' @ rest)"
proof -
  from unquote_wiki [OF assms(3), of dec] obtain r where "unquote dec link = py ''/wiki'' @ r"
    by blast
  with urljoin_wiki [OF assms(1,2), of r] show ?thesis
    by (simp add: resolve_link_def)
qed


lemma plain_host_h: "plain_host (\<lambda>loc. True) (py ''h'')"
  by (simp add: plain_host_def host_char_def netloc_delim_def netloc_raises_def py_def ch_def)

lemma origin_http_h: "origin (py ''http'') (py ''h'') = py ''http://h''"
  by (simp add: origin_def py_def)

text \<open>
  C6, as the code has it.  The resolver is a function of the raw link and the
  base, so the same pair gives the same result.  For a raw link that starts
  with \<open>/wiki\<close>, as the extractor yields them, and a base \<open>http://host\<close> or
  \<open>https://host\<close> with a host as \<open>main\<close> gets it from the seed, it returns a URL, which
  is the base followed by a path and has the scheme and the network location
  of the base.
\<close>

theorem resolver_keeps_article_links:
  assumes "sch = py ''http'' \<or> sch = py ''https''" and "plain_host ok host"
    and "startswith link (py ''/wiki'')"
  shows "\<exists>u. resolve_link ok dec (origin sch host) link = Inr u \<and>
           startswith u (origin sch host @ py ''/'') \<and>
           same_origin ok (origin sch host) u"
proof -
  from resolve_link_wiki [OF assms, of dec] obtain rest where
    r: "resolve_link ok dec (origin sch host) link = Inr (origin sch host @ py ''/'' @ rest)"
    by blast
  have "startswith (origin sch host @ py ''/'' @ rest) (origin sch host @ py ''/'')"
    by (simp add: startswith_def)
  moreover have "same_origin ok (origin sch host) (origin sch host @ py ''/'' @ rest)"
    using assms(1,2) by (rule same_origin_under)
  ultimately show ?thesis using r by blast
qed

text \<open>
  For other raw links the resolver leaves the origin: a link that starts with
  two slashes names its own host.
\<close>

theorem resolver_leaves_origin:
  "resolve_link (\<lambda>loc. True) (\<lambda>bs. [65533]) (py ''http://h'') (py ''//e/wiki'')
     = Inr (py ''http://e/wiki'') \<and>
   \<not> same_origin (\<lambda>loc. True) (py ''http://h'') (py ''http://e/wiki'')"
  by code_simp

theorem resolver_keeps_article_links_witness:
  "resolve_link (\<lambda>loc. True) (\<lambda>bs. [65533]) (py ''http://h'') (py ''/wiki/A'')
     = Inr (py ''http://h/wiki/A'') \<and>
   startswith (py ''http://h/wiki/A'') (py ''http://h'' @ py ''/'') \<and>
   same_origin (\<lambda>loc. True) (py ''http://h'') (py ''http://h/wiki/A'')"
proof -
  have a: "py ''http'' = py ''http'' \<or> py ''http'' = py ''https''" by simp
  have c: "startswith (py ''/wiki/A'') (py ''/wiki'')"
    by (simp add: startswith_def py_def)
  from resolver_keeps_article_links [OF a plain_host_h c, of "\<lambda>bs. [65533]"]
  obtain u where "resolve_link (\<lambda>loc. True) (\<lambda>bs. [65533]) (py ''http://h'') (py ''/wiki/A'') = Inr u"
    "startswith u (py ''http://h'' @ py ''/'')"
    "same_origin (\<lambda>loc. True) (py ''http://h'') u"
    unfolding origin_http_h by blast
  then show ?thesis by (simp add: join_A)
qed


section \<open>The links of a page\<close>

lemma resolve_links_on_origin:
  assumes "sch = py ''http'' \<or> sch = py ''https''" and "plain_host (netloc_ok env) host"
  shows "\<forall>raw \<in> set raws. startswith raw (py ''/wiki'') \<Longrightarrow>
     \<exists>out. resolve_links env (origin sch host) raws acc = Inr out \<and>
       (\<forall>l \<in> set out. l \<in> set acc \<or>
          (startswith l (origin sch host @ py ''/'') \<and>
           same_origin (netloc_ok env) (origin sch host) l))"
proof (induction raws arbitrary: acc)
  case Nil
  show ?case by simp
next
  case (Cons raw raws)
  then have w: "startswith raw (py ''/wiki'')" and rest: "\<forall>r \<in> set raws. startswith r (py ''/wiki'')"
    by simp_all
  from resolve_link_wiki [OF assms w, of "utf8_dec env"] obtain t where
    r: "resolve_link (netloc_ok env) (utf8_dec env) (origin sch host) raw
          = Inr (origin sch host @ py ''/'' @ t)"
    by blast
  let ?u = "origin sch host @ py ''/'' @ t"
  have good: "startswith ?u (origin sch host @ py ''/'') \<and>
      same_origin (netloc_ok env) (origin sch host) ?u"
    using same_origin_under [OF assms, of t] by (simp add: startswith_def)
  from Cons.IH [OF rest, of "set_add ?u acc"] obtain out where
    o: "resolve_links env (origin sch host) raws (set_add ?u acc) = Inr out"
       "\<forall>l \<in> set out. l \<in> set (set_add ?u acc) \<or>
          (startswith l (origin sch host @ py ''/'') \<and>
           same_origin (netloc_ok env) (origin sch host) l)"
    by blast
  have "set (set_add ?u acc) \<subseteq> insert ?u (set acc)"
    by (auto simp: set_add_def)
  with o(2) good have "\<forall>l \<in> set out. l \<in> set acc \<or>
          (startswith l (origin sch host @ py ''/'') \<and>
           same_origin (netloc_ok env) (origin sch host) l)"
    by blast
  with o(1) r show ?case by simp
qed

lemma feed_article_links: "feed tags [] = (r, links) \<Longrightarrow> \<forall>raw \<in> set links. startswith raw (py ''/wiki'')"
  using feed_links [of tags "[]"] by (auto simp: article_link_def)

text \<open>
  C10, as the code has it.  For a base \<open>http://host\<close> or \<open>https://host\<close> with a
  host as \<open>main\<close> gets it from the seed, and whatever the page: when the page is
  fetched and parsed without an exception, \<open>get_links_from_page\<close> returns its set
  of links, and every URL that \<open>get_links_from_page\<close> returns is the base followed
  by a path, with the scheme and the network location of the base.
\<close>

theorem discovered_links_on_origin:
  assumes "sch = py ''http'' \<or> sch = py ''https''" and "plain_host (netloc_ok env) host"
  shows "(\<forall>links. fst (get_links_from_page env url (origin sch host) s) = Inr links \<longrightarrow>
            (\<forall>l \<in> set links. startswith l (origin sch host @ py ''/'') \<and>
                              same_origin (netloc_ok env) (origin sch host) l)) \<and>
         (\<forall>html. fst (get_page env url s) = Inr html \<and>
                  fst (feed (starttags env html) []) = None \<longrightarrow>
            (\<exists>links. fst (get_links_from_page env url (origin sch host) s) = Inr links))"
proof -
  obtain r s1 where gp: "get_page env url s = (r, s1)" by (cases "get_page env url s")
  show ?thesis
  proof (cases r)
    case (Inl e)
    with gp show ?thesis by (simp add: get_links_from_page_def)
  next
    case (Inr html)
    show ?thesis
    proof (cases "html = []")
      case True
      with gp Inr show ?thesis by (simp add: get_links_from_page_def)
    next
      case False
      obtain x raws where fd: "feed (starttags env html) [] = (x, raws)"
        by (cases "feed (starttags env html) []")
      show ?thesis
      proof (cases x)
        case (Some e)
        with gp Inr False fd show ?thesis by (simp add: get_links_from_page_def)
      next
        case None
        from resolve_links_on_origin [OF assms feed_article_links [OF fd], of "[]"]
        obtain out where o: "resolve_links env (origin sch host) raws [] = Inr out"
          "\<forall>l \<in> set out. startswith l (origin sch host @ py ''/'') \<and>
              same_origin (netloc_ok env) (origin sch host) l"
          by auto
        have "get_links_from_page env url (origin sch host) s = (Inr out, s1)"
          using gp Inr False fd None o(1) by (simp add: get_links_from_page_def)
        with o(2) show ?thesis by simp
      qed
    qed
  qed
qed

text \<open>
  With a base whose scheme \<open>urljoin\<close> does not resolve against, the links come
  back as they were, with no scheme and no host.
\<close>

lemma join_git_A:
  "resolve_link (\<lambda>loc. True) (\<lambda>bs. [65533]) (py ''git://h'') (py ''/wiki/A'') = Inr (py ''/wiki/A'')"
  by code_simp

lemma join_git_B:
  "resolve_link (\<lambda>loc. True) (\<lambda>bs. [65533]) (py ''git://h'') (py ''/wiki/B'') = Inr (py ''/wiki/B'')"
  by code_simp

lemma not_same_origin_git: "\<not> same_origin (\<lambda>loc. True) (py ''git://h'') (py ''/wiki/A'')"
  by code_simp

theorem links_off_origin_for_other_scheme:
  "fst (get_links_from_page one_page (py ''u'') (py ''git://h'') start)
     = Inr [py ''/wiki/A'', py ''/wiki/B''] \<and>
   \<not> same_origin (netloc_ok one_page) (py ''git://h'') (py ''/wiki/A'')"
proof -
  have ne: "py ''page'' \<noteq> []" by (simp add: py_def)
  have ab: "py ''/wiki/B'' \<noteq> py ''/wiki/A''"
    by (simp add: py_def ch_def)
  have ok: "netloc_ok one_page = (\<lambda>loc. True)"
    by (simp add: one_page_def offline_def)
  have gp: "get_page one_page (py ''u'') start
      = (Inr (py ''page''), emit [Fetched (py ''u'')] (start\<lparr>world := ()\<rparr>))"
    by (simp add: get_page_def quote_u one_page_def offline_def)
  have st: "starttags one_page (py ''page'')
      = [(py ''a'', [(py ''href'', Some (py ''/wiki/A''))]),
         (py ''a'', [(py ''href'', Some (py ''/wiki/B''))])]"
    by (simp add: one_page_def offline_def)
  have rl: "resolve_links one_page (py ''git://h'') [py ''/wiki/A'', py ''/wiki/B''] []
      = Inr [py ''/wiki/A'', py ''/wiki/B'']"
    using ab by (simp add: one_page_def offline_def join_git_A join_git_B set_add_def)
  have "fst (get_links_from_page one_page (py ''u'') (py ''git://h'') start)
     = Inr [py ''/wiki/A'', py ''/wiki/B'']"
    using ne by (simp add: get_links_from_page_def gp st feed_one_page rl
        del: feed.simps resolve_links.simps)
  then show ?thesis by (simp add: ok not_same_origin_git)
qed

theorem discovered_links_on_origin_witness:
  "fst (get_links_from_page one_page (py ''u'') (py ''http://h'') start)
     = Inr [py ''http://h/wiki/A'', py ''http://h/wiki/B''] \<and>
   startswith (py ''http://h/wiki/A'') (py ''http://h'' @ py ''/'') \<and>
   same_origin (\<lambda>loc. True) (py ''http://h'') (py ''http://h/wiki/A'') \<and>
   startswith (py ''http://h/wiki/B'') (py ''http://h'' @ py ''/'') \<and>
   same_origin (\<lambda>loc. True) (py ''http://h'') (py ''http://h/wiki/B'')"
proof -
  have a: "py ''http'' = py ''http'' \<or> py ''http'' = py ''https''" by simp
  have ok: "netloc_ok one_page = (\<lambda>loc. True)"
    by (simp add: one_page_def offline_def)
  have b: "plain_host (netloc_ok one_page) (py ''h'')"
    by (simp only: ok plain_host_h)
  have l: "fst (get_links_from_page one_page (py ''u'') (py ''http://h'') start)
     = Inr [py ''http://h/wiki/A'', py ''http://h/wiki/B'']"
    by (simp add: one_page_links)
  from discovered_links_on_origin [OF a b, of "py ''u''" start]
  have "\<forall>l \<in> set [py ''http://h/wiki/A'', py ''http://h/wiki/B''].
      startswith l (py ''http://h'' @ py ''/'') \<and>
      same_origin (\<lambda>loc. True) (py ''http://h'') l"
    unfolding origin_http_h ok using l by blast
  with l show ?thesis by simp
qed

end
